theory Spec2Isabelle
  imports Main "HOL-Library.Word" "HOL-Library.Sublist"
begin

section \<open>The process supervisor of hopm: \<^verbatim>\<open>src/main.c\<close>\<close>

text \<open>
  The file \<^verbatim>\<open>main.c\<close> holds three signal flags, the signal handler \<^verbatim>\<open>do_signal\<close>,
  the exported \<^verbatim>\<open>main_restart\<close> and \<^verbatim>\<open>main\<close>: a staged start-up (pledge, unveil,
  option parsing, daemonising, pid file) followed by an endless loop. Everything the
  program does to the outside is a call into libc or into another file of the
  repository; the model records each such call as an \<open>event\<close> in a trace, in program
  order, and takes every value that comes back from outside from a \<open>world\<close> record.
\<close>

subsection \<open>Constants defined outside \<^verbatim>\<open>main.c\<close>\<close>

text \<open>The macros of \<^verbatim>\<open>setup.h\<close>, \<^verbatim>\<open>config.h\<close> and \<^verbatim>\<open>main.h\<close> are parameters.\<close>

record build =
  DEFAULTNAME :: string
  HOPM_ETCDIR :: string
  HOPM_LOGDIR :: string
  CONFEXT :: string
  LOGEXT :: string
  HOPM_PREFIX :: string
  HOPM_BINPATH :: string
  VERSION :: string

definition EXIT_SUCCESS :: int where
  "EXIT_SUCCESS = 0"

definition EXIT_FAILURE :: int where
  "EXIT_FAILURE = 1"

definition STDIN_FILENO :: int where
  "STDIN_FILENO = 0"

definition STDOUT_FILENO :: int where
  "STDOUT_FILENO = 1"

definition STDERR_FILENO :: int where
  "STDERR_FILENO = 2"

subsection \<open>Events, outcomes, state\<close>

datatype signal = SIGALRM | SIGINT | SIGHUP | SIGUSR1 | SIGPIPE | SIGOTHER

text \<open>
  An argument of a printf-style call: a string, an \<^verbatim>\<open>unsigned int\<close>, or
  \<^verbatim>\<open>strerror(errno)\<close> for the value \<^verbatim>\<open>errno\<close> has at the call.
\<close>

datatype arg = Str string | UInt "32 word" | StrError nat

datatype event =
    Pledge string
  | Unveil string string
  | Err string nat
  | Perror string nat
  | GetrlimitCore
  | SetrlimitCore
  | Chdir string
  | Fork
  | Setpgid
  | Umask nat
  | Open string
  | Dup2 int int
  | Close int
  | LogOpen string
  | LogClose
  | ScanlogOpen string
  | ScanlogClose
  | LogPrintf string "arg list"
  | ConfigLoad string
  | Fopen string string
  | Fprintf string
  | Fclose
  | Sigaction signal
  | SignalIgnore signal
  | Alarm nat
  | IrcCycle
  | ScanCycle
  | IrcTimer
  | ScanTimer
  | CommandTimer
  | GetrlimitNofile
  | Fcntl "32 word"
  | Execv string "string list"

text \<open>
  How a process ends: \<open>Exited n\<close> is \<^verbatim>\<open>exit(n)\<close>, \<^verbatim>\<open>_exit(n)\<close> or \<^verbatim>\<open>return n\<close> from
  \<^verbatim>\<open>main\<close>; \<open>Replaced\<close> is a successful \<^verbatim>\<open>execv\<close>; \<open>Spinning\<close> is a loop that
  never ends.
\<close>

datatype outcome = Exited int | Replaced | Spinning

record proc =
  RESTART :: int
  ALARMED :: int
  REOPEN :: int
  OPT_DEBUG :: "32 word"
  CONFNAME :: string
  CONFFILE :: string
  LOGFILE :: string
  scanlog :: "string option"
  pidfile :: string
  errno :: nat
  clock :: nat
  trace :: "event list"
  halted :: "outcome option"

text \<open>
  What arrives asynchronously while the loop runs: a signal, handled by
  \<^verbatim>\<open>do_signal\<close>, or a call of \<^verbatim>\<open>main_restart\<close> made by another subsystem.
\<close>

datatype async = Deliver signal | CallMainRestart

text \<open>
  The world: the argument vector, the successive results of \<^verbatim>\<open>getopt\<close> (the option
  character and \<^verbatim>\<open>optarg\<close>; the end of the list is the return value -1), the result of
  every system call, what \<^verbatim>\<open>config_load\<close> stores in \<^verbatim>\<open>OptionsItem\<close>, and the schedule:
  \<open>sched w n\<close> is what arrives at the \<open>n\<close>-th delivery point.
  \<^verbatim>\<open>rlim_t\<close> is an unsigned 64-bit integer.
\<close>

record world =
  argv :: "string list"
  getopt_returns :: "(int \<times> string) list"
  pledge_ok :: "string \<Rightarrow> bool"
  unveil_ok :: "string \<Rightarrow> string \<Rightarrow> bool"
  getrlimit_core_ok :: bool
  chdir_ok :: bool
  fork_result :: int
  setpgid_ok :: bool
  open_devnull :: int
  cfg_scanlog :: "string option"
  cfg_pidfile :: string
  fopen_ok :: bool
  getpid :: nat
  failure_errno :: "string \<Rightarrow> nat"
  rlimit_nofile :: "64 word option"
  fcntl_ok :: "32 word \<Rightarrow> bool"
  execv_ok :: bool
  sched :: "nat \<Rightarrow> async list"

subsection \<open>Sequencing\<close>

definition emit :: "event \<Rightarrow> proc \<Rightarrow> proc" where
  "emit e s = s\<lparr>trace := trace s @ [e]\<rparr>"

definition halt :: "outcome \<Rightarrow> proc \<Rightarrow> proc" where
  "halt out s = s\<lparr>halted := Some out\<rparr>"

definition set_errno :: "nat \<Rightarrow> proc \<Rightarrow> proc" where
  "set_errno e s = s\<lparr>errno := e\<rparr>"

text \<open>A sequence of statements; nothing runs once the process has ended.\<close>

fun block :: "(proc \<Rightarrow> proc) list \<Rightarrow> proc \<Rightarrow> proc" where
  "block [] s = s"
| "block (f # fs) s = (if halted s = None then block fs (f s) else s)"

subsection \<open>\<^verbatim>\<open>do_signal\<close> and \<^verbatim>\<open>main_restart\<close>\<close>

fun do_signal :: "signal \<Rightarrow> proc \<Rightarrow> proc" where
  "do_signal SIGALRM s = emit (Alarm 1) (s\<lparr>ALARMED := 1\<rparr>)"
| "do_signal SIGINT s =
     halt (Exited 0) (emit (LogPrintf ''MAIN -> Caught SIGINT, bye!'' []) s)"
| "do_signal SIGHUP s = s\<lparr>RESTART := 1\<rparr>"
| "do_signal SIGUSR1 s = s\<lparr>REOPEN := 1\<rparr>"
| "do_signal _ s = s"

definition main_restart :: "proc \<Rightarrow> proc" where
  "main_restart s = s\<lparr>RESTART := 1\<rparr>"

fun arrive :: "async \<Rightarrow> proc \<Rightarrow> proc" where
  "arrive (Deliver sg) s = do_signal sg s"
| "arrive CallMainRestart s = main_restart s"

text \<open>
  Once the handlers are installed, signals interrupt the loop between any two of its
  statements. A delivery point runs what the schedule holds for the current tick of
  \<open>clock\<close>; \<open>stmt w f\<close> is the statement \<open>f\<close> with the delivery point in front of it.
\<close>

definition point :: "world \<Rightarrow> proc \<Rightarrow> proc" where
  "point w s = block (map arrive (sched w (clock s))) (s\<lparr>clock := Suc (clock s)\<rparr>)"

definition stmt :: "world \<Rightarrow> (proc \<Rightarrow> proc) \<Rightarrow> proc \<Rightarrow> proc" where
  "stmt w f = block [point w, f]"

subsection \<open>Start-up: lines 104--255 of \<^verbatim>\<open>main\<close>\<close>

text \<open>\<^verbatim>\<open>err(1, msg)\<close>: a line with \<^verbatim>\<open>strerror(errno)\<close> on standard error, then exit 1.\<close>

definition err :: "int \<Rightarrow> string \<Rightarrow> proc \<Rightarrow> proc" where
  "err status msg s = halt (Exited status) (emit (Err msg (errno s)) s)"

definition perror :: "string \<Rightarrow> proc \<Rightarrow> proc" where
  "perror msg s = emit (Perror msg (errno s)) s"

text \<open>\<^verbatim>\<open>if (pledge(promises, NULL) == -1) err(1, "pledge");\<close>\<close>

definition pledge_or_err :: "world \<Rightarrow> string \<Rightarrow> proc \<Rightarrow> proc" where
  "pledge_or_err w promises s =
     (let s1 = emit (Pledge promises) s in
      if pledge_ok w promises then s1
      else err 1 ''pledge'' (set_errno (failure_errno w ''pledge'') s1))"

text \<open>\<^verbatim>\<open>if (unveil(path, perms) == -1) err(1, "unveil");\<close>\<close>

definition unveil_or_err :: "world \<Rightarrow> string \<Rightarrow> string \<Rightarrow> proc \<Rightarrow> proc" where
  "unveil_or_err w path perms s =
     (let s1 = emit (Unveil path perms) s in
      if unveil_ok w path perms then s1
      else err 1 ''unveil'' (set_errno (failure_errno w ''unveil'') s1))"

definition setup_corelimit :: "world \<Rightarrow> proc \<Rightarrow> proc" where
  "setup_corelimit w s =
     (let s1 = emit GetrlimitCore s in
      if getrlimit_core_ok w then emit SetrlimitCore s1 else s1)"

text \<open>
  The option loop, lines 114--131. \<^verbatim>\<open>xstrdup\<close> copies \<^verbatim>\<open>optarg\<close>; \<^verbatim>\<open>++OPT_DEBUG\<close> is an
  addition on \<^verbatim>\<open>unsigned int\<close>.
\<close>

fun getopt_loop :: "(int \<times> string) list \<Rightarrow> proc \<Rightarrow> proc" where
  "getopt_loop [] s = s"
| "getopt_loop ((c, optarg) # rest) s =
     (if c = - 1 then s
      else if c = of_char CHR ''c'' then getopt_loop rest (s\<lparr>CONFNAME := optarg\<rparr>)
      else if c = of_char CHR ''d'' then getopt_loop rest (s\<lparr>OPT_DEBUG := OPT_DEBUG s + 1\<rparr>)
      else getopt_loop rest s)"

text \<open>\<^verbatim>\<open>snprintf(buf, n, "%s/%s.%s", dir, name, ext)\<close> keeps at most \<open>n - 1\<close> characters.\<close>

definition snprintf_path :: "nat \<Rightarrow> string \<Rightarrow> string \<Rightarrow> string \<Rightarrow> string" where
  "snprintf_path n dir name ext = take (n - 1) (dir @ ''/'' @ name @ ''.'' @ ext)"

definition resolve_paths :: "build \<Rightarrow> proc \<Rightarrow> proc" where
  "resolve_paths b s =
     (let lenc = length (HOPM_ETCDIR b) + length (CONFNAME s) + length (CONFEXT b) + 3;
          lenl = length (HOPM_LOGDIR b) + length (CONFNAME s) + length (LOGEXT b) + 3
      in s\<lparr>CONFFILE := snprintf_path lenc (HOPM_ETCDIR b) (CONFNAME s) (CONFEXT b),
            LOGFILE := snprintf_path lenl (HOPM_LOGDIR b) (CONFNAME s) (LOGEXT b)\<rparr>)"

text \<open>\<^verbatim>\<open>if (chdir(HOPM_PREFIX)) { perror("chdir"); exit(EXIT_FAILURE); }\<close>\<close>

definition chdir_or_exit :: "build \<Rightarrow> world \<Rightarrow> proc \<Rightarrow> proc" where
  "chdir_or_exit b w s =
     (let s1 = emit (Chdir (HOPM_PREFIX b)) s in
      if chdir_ok w then s1
      else halt (Exited EXIT_FAILURE) (perror ''chdir'' (set_errno (failure_errno w ''chdir'') s1)))"

text \<open>Lines 155--161: the parent leaves with \<^verbatim>\<open>_exit(EXIT_SUCCESS)\<close>, the child goes on.\<close>

definition fork_off :: "world \<Rightarrow> proc \<Rightarrow> proc" where
  "fork_off w s =
     (let s1 = emit Fork s; pid = fork_result w in
      if pid < 0
      then halt (Exited EXIT_FAILURE) (perror ''fork()'' (set_errno (failure_errno w ''fork'') s1))
      else if pid \<noteq> 0 then halt (Exited EXIT_SUCCESS) s1
      else s1)"

definition setpgid_or_exit :: "world \<Rightarrow> proc \<Rightarrow> proc" where
  "setpgid_or_exit w s =
     (let s1 = emit Setpgid s in
      if setpgid_ok w then s1
      else halt (Exited EXIT_FAILURE)
             (perror ''setpgid()'' (set_errno (failure_errno w ''setpgid'') s1)))"

text \<open>Lines 173--186: the three standard streams are connected to \<^verbatim>\<open>/dev/null\<close>.\<close>

definition redirect_std :: "world \<Rightarrow> proc \<Rightarrow> proc" where
  "redirect_std w s =
     (let s1 = emit (Open ''/dev/null'') s; fd = open_devnull w in
      if fd < 0
      then halt (Exited EXIT_FAILURE) (perror ''open()'' (set_errno (failure_errno w ''open'') s1))
      else
        (let s2 = emit (Dup2 fd STDERR_FILENO)
                   (emit (Dup2 fd STDOUT_FILENO) (emit (Dup2 fd STDIN_FILENO) s1))
         in if fd > STDERR_FILENO then emit (Close fd) s2 else s2))"

text \<open>Lines 153--195; \<^verbatim>\<open>umask(077)\<close> is octal, 63.\<close>

definition daemonize :: "world \<Rightarrow> proc \<Rightarrow> proc" where
  "daemonize w s =
     (if OPT_DEBUG s = 0
      then block
        [fork_off w,
         setpgid_or_exit w,
         emit (Umask 63),
         redirect_std w,
         (\<lambda>s. unveil_or_err w (LOGFILE s) ''wc'' s),
         (\<lambda>s. emit (LogOpen (LOGFILE s)) s)] s
      else emit (LogPrintf ''MAIN -> Debug level %d'' [UInt (OPT_DEBUG s)]) s)"

text \<open>\<^verbatim>\<open>config_load\<close> fills \<^verbatim>\<open>OptionsItem\<close>.\<close>

definition config_load :: "world \<Rightarrow> proc \<Rightarrow> proc" where
  "config_load w s =
     (emit (ConfigLoad (CONFFILE s)) s)\<lparr>scanlog := cfg_scanlog w, pidfile := cfg_pidfile w\<rparr>"

text \<open>Lines 206--212.\<close>

definition open_scanlog :: "world \<Rightarrow> proc \<Rightarrow> proc" where
  "open_scanlog w s =
     (case scanlog s of
        None \<Rightarrow> s
      | Some path \<Rightarrow> block [unveil_or_err w path ''wc'', emit (ScanlogOpen path)] s)"

text \<open>
  Line 218: \<^verbatim>\<open>pidout = fopen(OptionsItem.pidfile, "w")\<close>; the result is tested only at
  line 228, so it is carried as a value.
\<close>

definition fopen_pidfile :: "world \<Rightarrow> proc \<Rightarrow> proc" where
  "fopen_pidfile w s =
     (let s1 = emit (Fopen (pidfile s) ''w'') s in
      if fopen_ok w then s1 else set_errno (failure_errno w ''fopen'') s1)"

text \<open>The rendering of \<^verbatim>\<open>%u\<close>.\<close>

fun decimal :: "nat \<Rightarrow> string" where
  "decimal n =
     (if n < 10 then [''0123456789'' ! n]
      else decimal (n div 10) @ [''0123456789'' ! (n mod 10)])"

declare decimal.simps [simp del]

text \<open>
  Lines 228--238. \<^verbatim>\<open>(unsigned int)getpid()\<close> is the process id modulo \<open>2 ^ 32\<close>.
\<close>

definition write_pid :: "world \<Rightarrow> proc \<Rightarrow> proc" where
  "write_pid w s =
     (if fopen_ok w
      then emit Fclose (emit (Fprintf (decimal (getpid w mod 2 ^ 32) @ [CHR 0x0A])) s)
      else halt (Exited EXIT_FAILURE)
             (emit (LogPrintf ''MAIN -> Error opening pid file %s: %s''
                      [Str (pidfile s), StrError (errno s)]) s))"

text \<open>Lines 240--255.\<close>

definition install_handlers :: "proc \<Rightarrow> proc" where
  "install_handlers =
     block
       [emit (Sigaction SIGALRM),
        emit (Sigaction SIGINT),
        emit (Sigaction SIGHUP),
        emit (Sigaction SIGUSR1),
        emit (SignalIgnore SIGPIPE),
        emit (Alarm 1)]"

text \<open>Lines 104--216: the sandbox is requested and every path is granted.\<close>

definition startup_paths :: "build \<Rightarrow> world \<Rightarrow> proc \<Rightarrow> proc" where
  "startup_paths b w =
     block
       [pledge_or_err w ''stdio rpath wpath cpath inet dns proc exec unveil'',
        unveil_or_err w ''/'' '''',
        setup_corelimit w,
        getopt_loop (getopt_returns w),
        resolve_paths b,
        unveil_or_err w (HOPM_PREFIX b) ''r'',
        chdir_or_exit b w,
        daemonize w,
        emit (LogPrintf ''MAIN -> HOPM %s started.'' [Str (VERSION b)]),
        emit (LogPrintf ''MAIN -> Reading configuration file...'' []),
        (\<lambda>s. unveil_or_err w (CONFFILE s) ''r'' s),
        config_load w,
        open_scanlog w,
        (\<lambda>s. unveil_or_err w (pidfile s) ''wc'' s)]"

text \<open>Lines 218--255: the pid file, the last grant, the final pledge, the handlers.\<close>

definition startup_pidfile :: "build \<Rightarrow> world \<Rightarrow> proc \<Rightarrow> proc" where
  "startup_pidfile b w =
     block
       [fopen_pidfile w,
        unveil_or_err w (HOPM_BINPATH b) ''x'',
        pledge_or_err w ''stdio inet dns exec'',
        write_pid w,
        install_handlers]"

definition startup :: "build \<Rightarrow> world \<Rightarrow> proc \<Rightarrow> proc" where
  "startup b w = block [startup_paths b w, startup_pidfile b w]"

subsection \<open>The main loop: lines 257--317\<close>

text \<open>
  Line 281: \<^verbatim>\<open>fcntl(i, F_SETFD, FD_CLOEXEC)\<close>. The call may fail (the number is not
  an open descriptor); its result is not looked at.
\<close>

definition mark_cloexec :: "world \<Rightarrow> 32 word \<Rightarrow> proc \<Rightarrow> proc" where
  "mark_cloexec w i s =
     (let s1 = emit (Fcntl i) s in
      if fcntl_ok w i then s1 else set_errno (failure_errno w ''fcntl'') s1)"

text \<open>
  Lines 280--281. The counter is an \<^verbatim>\<open>unsigned int\<close>, compared with \<^verbatim>\<open>rlim.rlim_cur\<close>
  after conversion to \<^verbatim>\<open>rlim_t\<close>, and \<^verbatim>\<open>++i\<close> wraps around. The loop need not end, so
  it is a partial function: \<open>None\<close> is a loop that runs forever.
\<close>

partial_function (option) cloexec_loop :: "world \<Rightarrow> 64 word \<Rightarrow> 32 word \<Rightarrow> proc \<Rightarrow> proc option" where
  "cloexec_loop w rlim_cur i s =
     (if halted s = None \<and> ucast i < rlim_cur
      then cloexec_loop w rlim_cur (i + 1) (stmt w (mark_cloexec w i) s)
      else Some s)"

definition cloexec_all :: "world \<Rightarrow> 64 word \<Rightarrow> proc \<Rightarrow> proc" where
  "cloexec_all w rlim_cur s =
     (case cloexec_loop w rlim_cur 0 s of None \<Rightarrow> halt Spinning s | Some s' \<Rightarrow> s')"

text \<open>
  Lines 283--287. The format string of line 285; \<open>CHR 0x22\<close> is the double quote.
\<close>

definition execv_failed_fmt :: string where
  "execv_failed_fmt =
     ''MAIN RESTART -> Execution of '' @ [CHR 0x22] @ ''%s'' @ [CHR 0x22] @ '' failed. ERROR: %s''"

definition exec_new :: "build \<Rightarrow> world \<Rightarrow> proc \<Rightarrow> proc" where
  "exec_new b w =
     block
       [stmt w (emit (Execv (HOPM_BINPATH b) (argv w))),
        (\<lambda>s. if execv_ok w then halt Replaced s
             else block
               [set_errno (failure_errno w ''execv''),
                stmt w (\<lambda>s. emit (LogPrintf execv_failed_fmt
                   [Str (HOPM_BINPATH b), StrError (errno s)]) s)] s),
        stmt w (halt (Exited 0))]"

text \<open>Lines 266--287, the body of \<^verbatim>\<open>if (RESTART)\<close>.\<close>

definition restart :: "build \<Rightarrow> world \<Rightarrow> proc \<Rightarrow> proc" where
  "restart b w =
     block
       [stmt w (\<lambda>s. if OPT_DEBUG s \<noteq> 0 then halt (Exited 1) s else s),
        stmt w (emit (LogPrintf ''MAIN -> Restarting process'' [])),
        stmt w (emit GetrlimitNofile),
        (\<lambda>s. case rlimit_nofile w of
           None \<Rightarrow> block
             [set_errno (failure_errno w ''getrlimit''),
              stmt w (\<lambda>s. emit (LogPrintf
                 ''MAIN RESTART -> getrlimit() error retrieving RLIMIT_NOFILE (%s)''
                 [StrError (errno s)]) s),
              stmt w (halt (Exited 1))] s
         | Some rlim_cur \<Rightarrow> block [cloexec_all w rlim_cur, exec_new b w] s)]"

text \<open>Lines 291--306, the body of \<^verbatim>\<open>if (REOPEN)\<close>.\<close>

definition reopen :: "world \<Rightarrow> proc \<Rightarrow> proc" where
  "reopen w =
     block
       [stmt w (emit (LogPrintf ''MAIN -> Caught SIGUSR1, reopening logfiles'' [])),
        stmt w (emit LogClose),
        stmt w (\<lambda>s. emit (LogOpen (LOGFILE s)) s),
        (\<lambda>s. case scanlog s of
           None \<Rightarrow> s
         | Some path \<Rightarrow> block [stmt w (emit ScanlogClose), stmt w (emit (ScanlogOpen path))] s),
        stmt w (emit (LogPrintf ''MAIN -> reopened logfiles'' [])),
        stmt w (\<lambda>s. s\<lparr>REOPEN := 0\<rparr>)]"

text \<open>Lines 309--316, the body of \<^verbatim>\<open>if (ALARMED)\<close>.\<close>

definition timers :: "world \<Rightarrow> proc \<Rightarrow> proc" where
  "timers w =
     block
       [stmt w (emit IrcTimer),
        stmt w (emit ScanTimer),
        stmt w (emit CommandTimer),
        stmt w (\<lambda>s. s\<lparr>ALARMED := 0\<rparr>)]"

text \<open>The three flag tests of one iteration, each with the delivery point before it.\<close>

definition check_restart :: "build \<Rightarrow> world \<Rightarrow> proc \<Rightarrow> proc" where
  "check_restart b w = stmt w (\<lambda>s. if RESTART s \<noteq> 0 then restart b w s else s)"

definition check_reopen :: "world \<Rightarrow> proc \<Rightarrow> proc" where
  "check_reopen w = stmt w (\<lambda>s. if REOPEN s \<noteq> 0 then reopen w s else s)"

definition check_alarmed :: "world \<Rightarrow> proc \<Rightarrow> proc" where
  "check_alarmed w = stmt w (\<lambda>s. if ALARMED s \<noteq> 0 then timers w s else s)"

text \<open>One iteration of \<^verbatim>\<open>while (1)\<close>.\<close>

definition main_cycle :: "build \<Rightarrow> world \<Rightarrow> proc \<Rightarrow> proc" where
  "main_cycle b w =
     block
       [stmt w (emit IrcCycle),
        stmt w (emit ScanCycle),
        check_restart b w,
        check_reopen w,
        check_alarmed w]"

text \<open>
  The loop has no exit of its own: \<open>main_loop n\<close> is its first \<open>n\<close> iterations, fewer
  when the process ends inside one.
\<close>

fun main_loop :: "nat \<Rightarrow> build \<Rightarrow> world \<Rightarrow> proc \<Rightarrow> proc" where
  "main_loop 0 b w s = s"
| "main_loop (Suc n) b w s =
     (if halted s = None then main_loop n b w (main_cycle b w s) else s)"

text \<open>The process at entry of \<^verbatim>\<open>main\<close>: the initialisers of lines 45--59.\<close>

definition initial :: "build \<Rightarrow> proc" where
  "initial b =
     \<lparr>RESTART = 0, ALARMED = 0, REOPEN = 0, OPT_DEBUG = 0,
      CONFNAME = DEFAULTNAME b, CONFFILE = [], LOGFILE = [],
      scanlog = None, pidfile = [], errno = 0, clock = 0, trace = [], halted = None\<rparr>"

definition main :: "nat \<Rightarrow> build \<Rightarrow> world \<Rightarrow> proc" where
  "main n b w = block [startup b w, main_loop n b w] (initial b)"

subsection \<open>Observations on traces\<close>

text \<open>No interrupt request (SIGINT) is ever delivered.\<close>

definition no_interrupt :: "world \<Rightarrow> bool" where
  "no_interrupt w \<longleftrightarrow> (\<forall>n. Deliver SIGINT \<notin> set (sched w n))"

text \<open>The events a signal handler adds to the trace.\<close>

definition handler_events :: "event set" where
  "handler_events = {Alarm 1, LogPrintf ''MAIN -> Caught SIGINT, bye!'' []}"

text \<open>
  The process was ended by the interrupt handler: exit status 0, and the last event is
  the line the handler logs.
\<close>

definition interrupted :: "proc \<Rightarrow> bool" where
  "interrupted s \<longleftrightarrow>
     halted s = Some (Exited 0) \<and> trace s \<noteq> []
     \<and> last (trace s) = LogPrintf ''MAIN -> Caught SIGINT, bye!'' []"

text \<open>\<open>preserves P f\<close>: the statement \<open>f\<close> keeps the property \<open>P\<close> of the process.\<close>

definition preserves :: "(proc \<Rightarrow> bool) \<Rightarrow> (proc \<Rightarrow> proc) \<Rightarrow> bool" where
  "preserves P f \<longleftrightarrow> (\<forall>s. P s \<longrightarrow> P (f s))"

text \<open>\<open>adds A f\<close>: the statement \<open>f\<close> only appends to the trace, and only events of \<open>A\<close>.\<close>

definition adds :: "event set \<Rightarrow> (proc \<Rightarrow> proc) \<Rightarrow> bool" where
  "adds A f \<longleftrightarrow> (\<forall>s. \<exists>evs. trace (f s) = trace s @ evs \<and> set evs \<subseteq> A)"

text \<open>
  The part of the loop body an event belongs to: \<open>1\<close> the two progress calls, \<open>2\<close>
  restart handling, \<open>3\<close> log rotation, \<open>4\<close> the timers, \<open>0\<close> anything else.
\<close>

fun phase :: "event \<Rightarrow> nat" where
  "phase IrcCycle = 1"
| "phase ScanCycle = 1"
| "phase GetrlimitNofile = 2"
| "phase (Fcntl i) = 2"
| "phase (Execv path args) = 2"
| "phase LogClose = 3"
| "phase (LogOpen path) = 3"
| "phase ScanlogClose = 3"
| "phase (ScanlogOpen path) = 3"
| "phase IrcTimer = 4"
| "phase ScanTimer = 4"
| "phase CommandTimer = 4"
| "phase (LogPrintf fmt args) =
     (if fmt = ''MAIN -> Restarting process'' \<or> fmt = execv_failed_fmt
         \<or> fmt = ''MAIN RESTART -> getrlimit() error retrieving RLIMIT_NOFILE (%s)'' then 2
      else if fmt = ''MAIN -> Caught SIGUSR1, reopening logfiles''
         \<or> fmt = ''MAIN -> reopened logfiles'' then 3
      else 0)"
| "phase _ = 0"

definition phases :: "event list \<Rightarrow> nat list" where
  "phases tr = filter (\<lambda>k. k \<noteq> 0) (map phase tr)"

text \<open>What one run of a statement appended to the trace.\<close>

definition new_events :: "proc \<Rightarrow> proc \<Rightarrow> event list" where
  "new_events s s' = drop (length (trace s)) (trace s')"

fun is_unveil :: "event \<Rightarrow> bool" where
  "is_unveil (Unveil path perms) = True"
| "is_unveil _ = False"

fun is_timer :: "event \<Rightarrow> bool" where
  "is_timer IrcTimer = True"
| "is_timer ScanTimer = True"
| "is_timer CommandTimer = True"
| "is_timer _ = False"

fun is_log :: "event \<Rightarrow> bool" where
  "is_log (LogPrintf fmt args) = True"
| "is_log _ = False"

fun is_fcntl :: "event \<Rightarrow> bool" where
  "is_fcntl (Fcntl i) = True"
| "is_fcntl _ = False"

fun is_execv :: "event \<Rightarrow> bool" where
  "is_execv (Execv path args) = True"
| "is_execv _ = False"

text \<open>The pid file and the two pledges.\<close>

fun is_pid_or_pledge :: "event \<Rightarrow> bool" where
  "is_pid_or_pledge (Fopen path mode) = True"
| "is_pid_or_pledge (Fprintf text) = True"
| "is_pid_or_pledge Fclose = True"
| "is_pid_or_pledge (Pledge promises) = True"
| "is_pid_or_pledge _ = False"

subsection \<open>A concrete installation\<close>

definition example_build :: build where
  "example_build =
     \<lparr>DEFAULTNAME = ''hopm'', HOPM_ETCDIR = ''/usr/local/etc'', HOPM_LOGDIR = ''/var/log'',
      CONFEXT = ''conf'', LOGEXT = ''log'', HOPM_PREFIX = ''/usr/local'',
      HOPM_BINPATH = ''/usr/local/bin/hopm'', VERSION = ''1.1.10''\<rparr>"

text \<open>
  Started as \<^verbatim>\<open>hopm -c test\<close>; every call succeeds except the marking of descriptor 2;
  one timer signal arrives at the second delivery point.
\<close>

definition example_world :: world where
  "example_world =
     \<lparr>argv = [''hopm'', ''-c'', ''test''],
      getopt_returns = [(of_char CHR ''c'', ''test'')],
      pledge_ok = (\<lambda>promises. True),
      unveil_ok = (\<lambda>path perms. True),
      getrlimit_core_ok = True,
      chdir_ok = True,
      fork_result = 0,
      setpgid_ok = True,
      open_devnull = 3,
      cfg_scanlog = Some ''/var/log/scan.log'',
      cfg_pidfile = ''/var/run/hopm.pid'',
      fopen_ok = True,
      getpid = 4711,
      failure_errno = (\<lambda>call. 13),
      rlimit_nofile = Some 3,
      fcntl_ok = (\<lambda>i. i \<noteq> 2),
      execv_ok = True,
      sched = (\<lambda>n. if n = 1 then [Deliver SIGALRM] else [])\<rparr>"

text \<open>The process of the example at the head of the loop.\<close>

definition example_proc :: proc where
  "example_proc = startup example_build example_world (initial example_build)"

text \<open>The same process with a restart, a rotation and a tick requested.\<close>

definition example_pending :: proc where
  "example_pending = example_proc\<lparr>RESTART := 1, ALARMED := 1, REOPEN := 1\<rparr>"

text \<open>
  Started as \<^verbatim>\<open>hopm -d -d\<close>: no fork, diagnostics on the terminal; then a restart is
  requested.
\<close>

definition example_debug_world :: world where
  "example_debug_world =
     example_world\<lparr>argv := [''hopm'', ''-d'', ''-d''],
       getopt_returns := [(of_char CHR ''d'', []), (of_char CHR ''d'', [])]\<rparr>"

definition example_debug :: proc where
  "example_debug =
     (startup example_build example_debug_world (initial example_build))\<lparr>RESTART := 1\<rparr>"

text \<open>The restart binary cannot be executed.\<close>

definition failing_exec_world :: world where
  "failing_exec_world = example_world\<lparr>execv_ok := False\<rparr>"

text \<open>The descriptor ceiling is \<^verbatim>\<open>RLIM_INFINITY\<close>, \<open>2 ^ 63 - 1\<close>.\<close>

definition unlimited_world :: world where
  "unlimited_world = example_world\<lparr>rlimit_nofile := Some 0x7FFFFFFFFFFFFFFF\<rparr>"

text \<open>The query of the descriptor ceiling fails.\<close>

definition no_ceiling_world :: world where
  "no_ceiling_world = example_world\<lparr>rlimit_nofile := None\<rparr>"

text \<open>The three calls on the pid file.\<close>

fun is_pid_file :: "event \<Rightarrow> bool" where
  "is_pid_file (Fopen path mode) = True"
| "is_pid_file (Fprintf text) = True"
| "is_pid_file Fclose = True"
| "is_pid_file _ = False"

text \<open>The pid file cannot be opened for writing.\<close>

definition unwritable_world :: world where
  "unwritable_world = example_world\<lparr>fopen_ok := False\<rparr>"

text \<open>
  Neither can the pid file be opened nor is the final pledge granted.
\<close>

definition locked_world :: world where
  "locked_world =
     unwritable_world\<lparr>pledge_ok := (\<lambda>promises. promises \<noteq> ''stdio inet dns exec'')\<rparr>"

text \<open>
  The schedule of \<open>w\<close> replaced by a single interrupt request, at the \<open>k\<close>-th delivery
  point. The start-up does not read the schedule.
\<close>

definition interrupt_at :: "nat \<Rightarrow> world \<Rightarrow> world" where
  "interrupt_at k w = w\<lparr>sched := (\<lambda>n. if n = k then [Deliver SIGINT] else [])\<rparr>"

section \<open>Facts about the model\<close>


subsection \<open>Sequencing\<close>

lemmas prim_defs = emit_def halt_def set_errno_def

lemma block_halted: "halted s \<noteq> None \<Longrightarrow> block fs s = s"
  by (cases fs) auto

lemma block_append: "block (fs @ gs) s = block gs (block fs s)"
  by (induction fs arbitrary: s) (auto simp: block_halted)

lemma block_single: "block [f] s = (if halted s = None then f s else s)"
  by simp

lemma halted_stays: "halted s \<noteq> None \<Longrightarrow> halted (block fs s) = halted s"
  by (simp add: block_halted)

subsection \<open>Handlers\<close>

lemma arrive_frame:
  "OPT_DEBUG (arrive a s) = OPT_DEBUG s \<and> CONFNAME (arrive a s) = CONFNAME s
   \<and> CONFFILE (arrive a s) = CONFFILE s \<and> LOGFILE (arrive a s) = LOGFILE s
   \<and> scanlog (arrive a s) = scanlog s \<and> pidfile (arrive a s) = pidfile s
   \<and> errno (arrive a s) = errno s \<and> clock (arrive a s) = clock s"
proof (cases a)
  case (Deliver sg)
  then show ?thesis by (cases sg) (simp_all add: prim_defs)
next
  case CallMainRestart
  then show ?thesis by (simp add: main_restart_def)
qed

lemma arrive_flags:
  "(RESTART s \<noteq> 0 \<longrightarrow> RESTART (arrive a s) \<noteq> 0)
   \<and> (ALARMED s \<noteq> 0 \<longrightarrow> ALARMED (arrive a s) \<noteq> 0)
   \<and> (REOPEN s \<noteq> 0 \<longrightarrow> REOPEN (arrive a s) \<noteq> 0)"
proof (cases a)
  case (Deliver sg)
  then show ?thesis by (cases sg) (simp_all add: prim_defs)
next
  case CallMainRestart
  then show ?thesis by (simp add: main_restart_def)
qed

lemma arrive_trace: "\<exists>evs. trace (arrive a s) = trace s @ evs \<and> set evs \<subseteq> handler_events"
proof (cases a)
  case (Deliver sg)
  then show ?thesis by (cases sg) (simp_all add: prim_defs handler_events_def)
next
  case CallMainRestart
  then show ?thesis by (simp add: main_restart_def)
qed

lemma arrive_running:
  "a \<noteq> Deliver SIGINT \<Longrightarrow> halted (arrive a s) = halted s"
proof (cases a)
  case (Deliver sg)
  assume "a \<noteq> Deliver SIGINT"
  with Deliver show ?thesis by (cases sg) (simp_all add: prim_defs)
next
  case CallMainRestart
  then show ?thesis by (simp add: main_restart_def)
qed

lemma arrivals_frame:
  "OPT_DEBUG (block (map arrive as) s) = OPT_DEBUG s
   \<and> CONFNAME (block (map arrive as) s) = CONFNAME s
   \<and> CONFFILE (block (map arrive as) s) = CONFFILE s
   \<and> LOGFILE (block (map arrive as) s) = LOGFILE s
   \<and> scanlog (block (map arrive as) s) = scanlog s
   \<and> pidfile (block (map arrive as) s) = pidfile s
   \<and> errno (block (map arrive as) s) = errno s
   \<and> clock (block (map arrive as) s) = clock s"
  by (induction as arbitrary: s) (simp_all add: arrive_frame)

lemma arrivals_flags:
  "(RESTART s \<noteq> 0 \<longrightarrow> RESTART (block (map arrive as) s) \<noteq> 0)
   \<and> (ALARMED s \<noteq> 0 \<longrightarrow> ALARMED (block (map arrive as) s) \<noteq> 0)
   \<and> (REOPEN s \<noteq> 0 \<longrightarrow> REOPEN (block (map arrive as) s) \<noteq> 0)"
proof (induction as arbitrary: s)
  case Nil
  then show ?case by simp
next
  case (Cons a as)
  from Cons [of "arrive a s"] arrive_flags [of s a] show ?case by simp
qed

lemma arrivals_trace:
  "\<exists>evs. trace (block (map arrive as) s) = trace s @ evs \<and> set evs \<subseteq> handler_events"
proof (induction as arbitrary: s)
  case Nil
  then show ?case by simp
next
  case (Cons a as)
  show ?case
  proof (cases "halted s = None")
    case True
    obtain e1 where e1: "trace (arrive a s) = trace s @ e1" "set e1 \<subseteq> handler_events"
      using arrive_trace by blast
    obtain e2 where e2: "trace (block (map arrive as) (arrive a s)) = trace (arrive a s) @ e2"
      "set e2 \<subseteq> handler_events"
      using Cons by blast
    from True e1 e2 have "trace (block (map arrive (a # as)) s) = trace s @ (e1 @ e2)"
      "set (e1 @ e2) \<subseteq> handler_events" by simp_all
    then show ?thesis by blast
  next
    case False
    then show ?thesis by auto
  qed
qed

lemma arrivals_running:
  "Deliver SIGINT \<notin> set as \<Longrightarrow> halted (block (map arrive as) s) = halted s"
  by (induction as arbitrary: s) (auto simp: arrive_running)

lemma point_frame:
  "OPT_DEBUG (point w s) = OPT_DEBUG s \<and> CONFNAME (point w s) = CONFNAME s
   \<and> CONFFILE (point w s) = CONFFILE s \<and> LOGFILE (point w s) = LOGFILE s
   \<and> scanlog (point w s) = scanlog s \<and> pidfile (point w s) = pidfile s
   \<and> errno (point w s) = errno s \<and> clock (point w s) = Suc (clock s)"
  by (simp add: point_def arrivals_frame)

lemma point_flags:
  "(RESTART s \<noteq> 0 \<longrightarrow> RESTART (point w s) \<noteq> 0)
   \<and> (ALARMED s \<noteq> 0 \<longrightarrow> ALARMED (point w s) \<noteq> 0)
   \<and> (REOPEN s \<noteq> 0 \<longrightarrow> REOPEN (point w s) \<noteq> 0)"
  using arrivals_flags [of "s\<lparr>clock := Suc (clock s)\<rparr>" "sched w (clock s)"]
  by (simp add: point_def)

lemma point_trace: "\<exists>evs. trace (point w s) = trace s @ evs \<and> set evs \<subseteq> handler_events"
  using arrivals_trace [of "sched w (clock s)" "s\<lparr>clock := Suc (clock s)\<rparr>"]
  by (simp add: point_def)

lemma point_running: "no_interrupt w \<Longrightarrow> halted (point w s) = halted s"
  by (simp add: point_def no_interrupt_def arrivals_running)


lemma point_filter:
  assumes "\<And>e. e \<in> handler_events \<Longrightarrow> \<not> P e"
  shows "filter P (trace (point w s)) = filter P (trace s)"
proof -
  obtain evs where evs: "trace (point w s) = trace s @ evs" "set evs \<subseteq> handler_events"
    using point_trace by blast
  with assms have "filter P evs = []" by (auto simp: filter_empty_conv)
  with evs show ?thesis by simp
qed

subsection \<open>Statements that only append to the trace\<close>

lemma addsI: "(\<And>s. \<exists>evs. trace (f s) = trace s @ evs \<and> set evs \<subseteq> A) \<Longrightarrow> adds A f"
  by (simp add: adds_def)

lemma addsD: "adds A f \<Longrightarrow> \<exists>evs. trace (f s) = trace s @ evs \<and> set evs \<subseteq> A"
  by (simp add: adds_def)

lemma adds_mono: "adds A f \<Longrightarrow> A \<subseteq> B \<Longrightarrow> adds B f"
  unfolding adds_def by (meson subset_trans)

lemma adds_emit: "e \<in> A \<Longrightarrow> adds A (emit e)"
  by (simp add: adds_def emit_def)

lemma adds_halt: "adds A (halt out)"
  by (simp add: adds_def halt_def)

lemma adds_set_errno: "adds A (set_errno e)"
  by (simp add: adds_def set_errno_def)

lemma adds_skip: "adds A (\<lambda>s. s)"
  by (simp add: adds_def)

lemma adds_if: "adds A f \<Longrightarrow> adds A g \<Longrightarrow> adds A (\<lambda>s. if c s then f s else g s)"
  by (simp add: adds_def)

lemma adds_dep: "(\<And>x. adds A (f x)) \<Longrightarrow> adds A (\<lambda>s. f (g s) s)"
  by (simp add: adds_def)

lemma adds_case_option:
  "adds A f \<Longrightarrow> (\<And>x. adds A (g x)) \<Longrightarrow>
   adds A (\<lambda>s. case h s of None \<Rightarrow> f s | Some x \<Rightarrow> g x s)"
  by (simp add: adds_def split: option.split)

lemma adds_comp:
  assumes "adds A f" and "adds A g"
  shows "adds A (\<lambda>s. g (f s))"
proof (rule addsI)
  fix s
  obtain e1 where e1: "trace (f s) = trace s @ e1" "set e1 \<subseteq> A"
    using addsD [OF assms(1)] by blast
  obtain e2 where e2: "trace (g (f s)) = trace (f s) @ e2" "set e2 \<subseteq> A"
    using addsD [OF assms(2)] by blast
  from e1 e2 have "trace (g (f s)) = trace s @ (e1 @ e2) \<and> set (e1 @ e2) \<subseteq> A" by simp
  then show "\<exists>evs. trace (g (f s)) = trace s @ evs \<and> set evs \<subseteq> A" by blast
qed

lemma adds_block_Nil: "adds A (block [])"
  by (simp add: adds_def)

lemma adds_block_Cons:
  assumes "adds A f" and "adds A (block fs)"
  shows "adds A (block (f # fs))"
proof -
  have "adds A (\<lambda>s. block fs (f s))"
    by (rule adds_comp [OF assms])
  then have "adds A (\<lambda>s. if halted s = None then block fs (f s) else s)"
    by (rule adds_if [OF _ adds_skip])
  then show ?thesis by (simp add: adds_def)
qed

lemma adds_block: "(\<And>f. f \<in> set fs \<Longrightarrow> adds A f) \<Longrightarrow> adds A (block fs)"
  by (induction fs) (simp_all add: adds_block_Nil adds_block_Cons)

lemma adds_point: "handler_events \<subseteq> A \<Longrightarrow> adds A (point w)"
  unfolding adds_def using point_trace by (meson subset_trans)

lemma adds_stmt: "handler_events \<subseteq> A \<Longrightarrow> adds A f \<Longrightarrow> adds A (stmt w f)"
  unfolding stmt_def by (rule adds_block) (auto simp: adds_point)

lemma adds_update:
  "adds A (\<lambda>s. s\<lparr>REOPEN := v\<rparr>)" "adds A (\<lambda>s. s\<lparr>ALARMED := v\<rparr>)"
  by (simp_all add: adds_def)

text \<open>The events of one part of the loop body, with what the handlers add.\<close>

lemma handler_phase: "e \<in> handler_events \<Longrightarrow> phase e = 0"
  by (auto simp: handler_events_def execv_failed_fmt_def)

lemma adds_mark_cloexec: "adds ({e. phase e = 2} \<union> handler_events) (mark_cloexec w i)"
  by (simp add: adds_def mark_cloexec_def prim_defs Let_def)

lemma adds_emit_dep: "(\<And>s. e s \<in> A) \<Longrightarrow> adds A (\<lambda>s. emit (e s) s)"
  by (simp add: adds_def emit_def)

lemmas adds_intros =
  adds_block_Cons adds_block_Nil adds_stmt adds_emit adds_emit_dep adds_halt adds_if
  adds_set_errno adds_skip adds_case_option adds_update

lemma cloexec_loop_trace:
  assumes "cloexec_loop w c i s = Some s'"
  shows "\<exists>evs. trace s' = trace s @ evs \<and> set evs \<subseteq> {e. phase e = 2} \<union> handler_events"
proof (rule cloexec_loop.raw_induct
    [where P = "\<lambda>w c i s s'. \<exists>evs. trace s' = trace s @ evs
                  \<and> set evs \<subseteq> {e. phase e = 2} \<union> handler_events", OF _ assms])
  fix f :: "world \<Rightarrow> 64 word \<Rightarrow> 32 word \<Rightarrow> proc \<Rightarrow> proc option" and w c i s s'
  assume IH: "\<And>w c i s s'. f w c i s = Some s' \<Longrightarrow>
      \<exists>evs. trace s' = trace s @ evs \<and> set evs \<subseteq> {e. phase e = 2} \<union> handler_events"
    and eq: "(if halted s = None \<and> ucast i < c
              then f w c (i + 1) (stmt w (mark_cloexec w i) s) else Some s) = Some s'"
  show "\<exists>evs. trace s' = trace s @ evs \<and> set evs \<subseteq> {e. phase e = 2} \<union> handler_events"
  proof (cases "halted s = None \<and> ucast i < c")
    case True
    with eq have "f w c (i + 1) (stmt w (mark_cloexec w i) s) = Some s'" by simp
    from IH [OF this] obtain e2 where e2:
      "trace s' = trace (stmt w (mark_cloexec w i) s) @ e2"
      "set e2 \<subseteq> {e. phase e = 2} \<union> handler_events"
      by blast
    have "adds ({e. phase e = 2} \<union> handler_events) (stmt w (mark_cloexec w i))"
      by (rule adds_stmt) (simp_all add: adds_mark_cloexec)
    then obtain e1 where e1:
      "trace (stmt w (mark_cloexec w i) s) = trace s @ e1"
      "set e1 \<subseteq> {e. phase e = 2} \<union> handler_events"
      using addsD by blast
    from e1 e2 have "trace s' = trace s @ (e1 @ e2)"
      "set (e1 @ e2) \<subseteq> {e. phase e = 2} \<union> handler_events" by simp_all
    then show ?thesis by blast
  next
    case False
    with eq have "s' = s" by auto
    then show ?thesis by simp
  qed
qed

lemma adds_cloexec_all: "adds ({e. phase e = 2} \<union> handler_events) (cloexec_all w c)"
proof (rule addsI)
  fix s
  show "\<exists>evs. trace (cloexec_all w c s) = trace s @ evs
          \<and> set evs \<subseteq> {e. phase e = 2} \<union> handler_events"
  proof (cases "cloexec_loop w c 0 s")
    case None
    then show ?thesis by (simp add: cloexec_all_def halt_def)
  next
    case (Some s')
    with cloexec_loop_trace [OF Some] show ?thesis by (simp add: cloexec_all_def)
  qed
qed

lemma adds_exec_new: "adds ({e. phase e = 2} \<union> handler_events) (exec_new b w)"
  unfolding exec_new_def by (intro adds_intros; simp add: execv_failed_fmt_def)

lemma adds_restart: "adds ({e. phase e = 2} \<union> handler_events) (restart b w)"
  unfolding restart_def by (intro adds_intros adds_cloexec_all adds_exec_new; simp add: execv_failed_fmt_def)

lemma adds_reopen: "adds ({e. phase e = 3} \<union> handler_events) (reopen w)"
  unfolding reopen_def by (intro adds_intros; simp add: execv_failed_fmt_def)

lemma adds_timers: "adds ({e. phase e = 4} \<union> handler_events) (timers w)"
  unfolding timers_def by (intro adds_intros; simp add: execv_failed_fmt_def)

lemma adds_check_restart: "adds ({e. phase e = 2} \<union> handler_events) (check_restart b w)"
  unfolding check_restart_def by (intro adds_intros adds_restart; simp)

lemma adds_check_reopen: "adds ({e. phase e = 3} \<union> handler_events) (check_reopen w)"
  unfolding check_reopen_def by (intro adds_intros adds_reopen; simp)

lemma adds_check_alarmed: "adds ({e. phase e = 4} \<union> handler_events) (check_alarmed w)"
  unfolding check_alarmed_def by (intro adds_intros adds_timers; simp)


subsection \<open>Statements that keep a property\<close>

lemma preservesD: "preserves P f \<Longrightarrow> P s \<Longrightarrow> P (f s)"
  by (simp add: preserves_def)

lemma preserves_skip: "preserves P (\<lambda>s. s)"
  by (simp add: preserves_def)

lemma preserves_if:
  "preserves P f \<Longrightarrow> preserves P g \<Longrightarrow> preserves P (\<lambda>s. if c s then f s else g s)"
  by (simp add: preserves_def)

lemma preserves_case_option:
  "preserves P f \<Longrightarrow> (\<And>x. preserves P (g x)) \<Longrightarrow>
   preserves P (\<lambda>s. case h s of None \<Rightarrow> f s | Some x \<Rightarrow> g x s)"
  by (simp add: preserves_def split: option.split)

lemma preserves_block_Nil: "preserves P (block [])"
  by (simp add: preserves_def)

lemma preserves_block_Cons:
  "preserves P f \<Longrightarrow> preserves P (block fs) \<Longrightarrow> preserves P (block (f # fs))"
  by (simp add: preserves_def)

lemma preserves_block: "(\<And>f. f \<in> set fs \<Longrightarrow> preserves P f) \<Longrightarrow> preserves P (block fs)"
  by (induction fs) (simp_all add: preserves_block_Nil preserves_block_Cons)

lemma preserves_stmt: "preserves P (point w) \<Longrightarrow> preserves P f \<Longrightarrow> preserves P (stmt w f)"
  unfolding stmt_def by (intro preserves_block_Cons preserves_block_Nil)

lemmas preserves_intros =
  preserves_block_Cons preserves_block_Nil preserves_stmt preserves_if preserves_skip
  preserves_case_option

lemma cloexec_loop_preserves:
  assumes run: "cloexec_loop w c i s = Some s'"
    and step: "\<And>i. preserves P (stmt w (mark_cloexec w i))"
    and P: "P s"
  shows "P s'"
proof -
  have "(\<forall>i. preserves P (stmt w (mark_cloexec w i))) \<longrightarrow> P s \<longrightarrow> P s'"
  proof (rule cloexec_loop.raw_induct
      [where P = "\<lambda>w c i s s'. (\<forall>i. preserves P (stmt w (mark_cloexec w i))) \<longrightarrow> P s \<longrightarrow> P s'",
        OF _ run])
    fix f :: "world \<Rightarrow> 64 word \<Rightarrow> 32 word \<Rightarrow> proc \<Rightarrow> proc option" and w c i s s'
    assume IH: "\<And>w c i s s'. f w c i s = Some s' \<Longrightarrow>
        (\<forall>i. preserves P (stmt w (mark_cloexec w i))) \<longrightarrow> P s \<longrightarrow> P s'"
      and eq: "(if halted s = None \<and> ucast i < c
                then f w c (i + 1) (stmt w (mark_cloexec w i) s) else Some s) = Some s'"
    show "(\<forall>i. preserves P (stmt w (mark_cloexec w i))) \<longrightarrow> P s \<longrightarrow> P s'"
    proof (cases "halted s = None \<and> ucast i < c")
      case True
      with eq have "f w c (i + 1) (stmt w (mark_cloexec w i) s) = Some s'" by simp
      from IH [OF this] show ?thesis by (auto dest: preservesD)
    next
      case False
      with eq show ?thesis by auto
    qed
  qed
  with step P show ?thesis by blast
qed

lemma preserves_cloexec_all:
  assumes "\<And>i. preserves P (stmt w (mark_cloexec w i))" and "preserves P (halt Spinning)"
  shows "preserves P (cloexec_all w c)"
  unfolding preserves_def cloexec_all_def
  using assms(2) cloexec_loop_preserves [OF _ assms(1)]
  by (auto simp: preserves_def split: option.split)

text \<open>The restart flag is only ever set.\<close>

lemma preserves_RESTART_arrive: "preserves (\<lambda>s. RESTART s \<noteq> 0) (arrive a)"
  using arrive_flags by (simp add: preserves_def)

lemma preserves_RESTART_point: "preserves (\<lambda>s. RESTART s \<noteq> 0) (point w)"
  using point_flags by (simp add: preserves_def)

lemma preserves_RESTART_mark: "preserves (\<lambda>s. RESTART s \<noteq> 0) (mark_cloexec w i)"
  by (simp add: preserves_def mark_cloexec_def prim_defs Let_def)

lemma preserves_RESTART_restart: "preserves (\<lambda>s. RESTART s \<noteq> 0) (restart b w)"
  unfolding restart_def exec_new_def
  by (intro preserves_intros preserves_cloexec_all preserves_RESTART_point preserves_RESTART_mark;
      simp add: preserves_def prim_defs)

lemma preserves_RESTART_reopen: "preserves (\<lambda>s. RESTART s \<noteq> 0) (reopen w)"
  unfolding reopen_def
  by (intro preserves_intros preserves_RESTART_point; simp add: preserves_def prim_defs)

lemma preserves_RESTART_timers: "preserves (\<lambda>s. RESTART s \<noteq> 0) (timers w)"
  unfolding timers_def
  by (intro preserves_intros preserves_RESTART_point; simp add: preserves_def prim_defs)

lemma preserves_RESTART_main_cycle: "preserves (\<lambda>s. RESTART s \<noteq> 0) (main_cycle b w)"
  unfolding main_cycle_def check_restart_def check_reopen_def check_alarmed_def
  by (intro preserves_intros preserves_RESTART_point preserves_RESTART_restart
      preserves_RESTART_reopen preserves_RESTART_timers; simp add: preserves_def prim_defs)

lemma preserves_RESTART_main_loop: "preserves (\<lambda>s. RESTART s \<noteq> 0) (main_loop n b w)"
proof (induction n)
  case 0
  show ?case by (simp add: preserves_def)
next
  case (Suc n)
  with preserves_RESTART_main_cycle [of b w] show ?case by (simp add: preserves_def)
qed


subsection \<open>The counter and the ceiling\<close>

lemma unat_lt_32: "unat (i :: 32 word) < 4294967296"
  using unsigned_less [of i, where 'a = nat] by simp

lemma unat_ucast_32_64: "unat (ucast (i :: 32 word) :: 64 word) = unat i"
proof -
  have "unat i < 2 ^ 64"
    using unat_lt_32 [of i] by simp
  then show ?thesis
    by (simp add: unsigned_ucast_eq take_bit_nat_eq_self)
qed

lemma ucast_less_iff: "(ucast (i :: 32 word) < (c :: 64 word)) = (unat i < unat c)"
  by (simp add: word_less_nat_alt unat_ucast_32_64)

lemma unat_inc: "unat (i :: 32 word) < 4294967295 \<Longrightarrow> unat (i + 1) = Suc (unat i)"
  by (simp add: unat_word_ariths)

lemma counter_below_large: "(0x100000000 :: 64 word) \<le> c \<Longrightarrow> ucast (i :: 32 word) < c"
  using unat_lt_32 [of i] by (simp add: ucast_less_iff word_le_nat_alt)

text \<open>A ceiling within the range of the counter: the loop ends.\<close>

lemma cloexec_loop_terminates:
  assumes "c \<le> 0xFFFFFFFF"
  shows "\<exists>s'. cloexec_loop w c i s = Some s'"
proof (induction "unat c - unat i" arbitrary: i s)
  case 0
  then have "\<not> ucast i < c" by (simp add: ucast_less_iff)
  then show ?case by (subst cloexec_loop.simps) simp
next
  case (Suc n)
  show ?case
  proof (cases "halted s = None \<and> ucast i < c")
    case True
    from assms have "unat c \<le> 4294967295" by (simp add: word_le_nat_alt)
    with True have "unat i < 4294967295" by (simp add: ucast_less_iff)
    then have "unat (i + 1) = Suc (unat i)" by (rule unat_inc)
    with Suc(2) have "n = unat c - unat (i + 1)" by simp
    from Suc(1) [OF this] obtain s' where
      "cloexec_loop w c (i + 1) (stmt w (mark_cloexec w i) s) = Some s'" by blast
    with True show ?thesis by (subst cloexec_loop.simps) simp
  next
    case False
    then show ?thesis by (subst cloexec_loop.simps) auto
  qed
qed

text \<open>A ceiling beyond the range of the counter: only an interrupt ends the loop.\<close>

lemma cloexec_loop_large:
  assumes run: "cloexec_loop w c i s = Some s'" and large: "0x100000000 \<le> c"
  shows "halted s' \<noteq> None"
proof -
  have "0x100000000 \<le> c \<longrightarrow> halted s' \<noteq> None"
  proof (rule cloexec_loop.raw_induct
      [where P = "\<lambda>w c i s s'. 0x100000000 \<le> c \<longrightarrow> halted s' \<noteq> None", OF _ run])
    fix f :: "world \<Rightarrow> 64 word \<Rightarrow> 32 word \<Rightarrow> proc \<Rightarrow> proc option" and w c i s s'
    assume IH: "\<And>w c i s s'. f w c i s = Some s' \<Longrightarrow> 0x100000000 \<le> c \<longrightarrow> halted s' \<noteq> None"
      and eq: "(if halted s = None \<and> ucast i < c
                then f w c (i + 1) (stmt w (mark_cloexec w i) s) else Some s) = Some s'"
    show "0x100000000 \<le> c \<longrightarrow> halted s' \<noteq> None"
    proof (cases "halted s = None \<and> ucast i < c")
      case True
      with eq have "f w c (i + 1) (stmt w (mark_cloexec w i) s) = Some s'" by simp
      from IH [OF this] show ?thesis .
    next
      case False
      with eq have "s' = s" by auto
      with False counter_below_large [of c i] show ?thesis by auto
    qed
  qed
  with large show ?thesis by simp
qed

lemma mark_running: "halted (mark_cloexec w i s) = halted s"
  by (simp add: mark_cloexec_def prim_defs Let_def)

lemma preserves_running_stmt_mark:
  "no_interrupt w \<Longrightarrow> preserves (\<lambda>s. halted s = None) (stmt w (mark_cloexec w i))"
  by (simp add: preserves_def stmt_def point_running mark_running)

lemma cloexec_loop_diverges:
  assumes "no_interrupt w" and "0x100000000 \<le> c" and "halted s = None"
  shows "cloexec_loop w c i s = None"
proof (cases "cloexec_loop w c i s")
  case None
  then show ?thesis .
next
  case (Some s')
  from cloexec_loop_preserves [OF Some preserves_running_stmt_mark [OF assms(1)] assms(3)]
  have "halted s' = None" .
  with cloexec_loop_large [OF Some assms(2)] show ?thesis by simp
qed

subsection \<open>Every path through the restart branch ends the loop\<close>

lemma block_snoc_halts:
  assumes "\<And>s. halted (g s) \<noteq> None"
  shows "halted (block (fs @ [g]) s) \<noteq> None"
  using assms [of "block fs s"] by (simp add: block_append)

lemma block2_halts: "(\<And>s. halted (g s) \<noteq> None) \<Longrightarrow> halted (block [f, g] s) \<noteq> None"
  using block_snoc_halts [of g "[f]" s] by simp

lemma block3_halts: "(\<And>s. halted (h s) \<noteq> None) \<Longrightarrow> halted (block [f, g, h] s) \<noteq> None"
  using block_snoc_halts [of h "[f, g]" s] by simp

lemma block4_halts: "(\<And>s. halted (k s) \<noteq> None) \<Longrightarrow> halted (block [f, g, h, k] s) \<noteq> None"
  using block_snoc_halts [of k "[f, g, h]" s] by simp

lemma stmt_halt: "halted (stmt w (halt out) s) \<noteq> None"
  by (simp add: stmt_def halt_def)

lemma exec_new_halts: "halted (exec_new b w s) \<noteq> None"
  unfolding exec_new_def by (rule block3_halts) (rule stmt_halt)

lemma restart_halts: "halted (restart b w s) \<noteq> None"
  unfolding restart_def
  apply (rule block4_halts)
  apply (cases "rlimit_nofile w")
   apply (simp only: option.case)
   apply (rule block3_halts)
   apply (rule stmt_halt)
  apply (simp only: option.case)
  apply (rule block2_halts)
  apply (rule exec_new_halts)
  done

lemma check_restart_observed:
  assumes "halted s = None" and "halted (point w s) = None \<longrightarrow> RESTART (point w s) \<noteq> 0"
  shows "halted (check_restart b w s) \<noteq> None"
  using assms restart_halts [of b w "point w s"]
  by (auto simp: check_restart_def stmt_def)


subsection \<open>The order of the parts of one iteration\<close>

lemma block_Cons_eq: "block (f # fs) s = block fs (block [f] s)"
  using block_append [of "[f]" fs s] by simp

lemma block2: "block [f1, f2] s = block [f2] (block [f1] s)"
  using block_append [of "[f1]" "[f2]" s] by (simp del: block.simps)

lemma block3: "block [f1, f2, f3] s = block [f3] (block [f2] (block [f1] s))"
  using block_append [of "[f1, f2]" "[f3]" s] by (simp del: block.simps add: block2)

lemma block4: "block [f1, f2, f3, f4] s = block [f4] (block [f3] (block [f2] (block [f1] s)))"
  using block_append [of "[f1, f2, f3]" "[f4]" s] by (simp del: block.simps add: block3)

lemma block5:
  "block [f1, f2, f3, f4, f5] s
     = block [f5] (block [f4] (block [f3] (block [f2] (block [f1] s))))"
  using block_append [of "[f1, f2, f3, f4]" "[f5]" s] by (simp del: block.simps add: block4)

lemma adds_single: "adds A f \<Longrightarrow> adds A (block [f])"
  by (intro adds_intros)

lemma new_events_append: "trace s' = trace s @ evs \<Longrightarrow> new_events s s' = evs"
  by (simp add: new_events_def)

lemma phases_append: "phases (xs @ ys) = phases xs @ phases ys"
  by (simp add: phases_def)

lemma phases_subset:
  assumes "set evs \<subseteq> {e. phase e = k} \<union> handler_events"
  shows "set (phases evs) \<subseteq> {k}"
  using assms handler_phase by (auto simp: phases_def)

lemma sorted_const: "set xs \<subseteq> {k :: nat} \<Longrightarrow> sorted xs"
  by (induction xs) auto

lemma adds_progress:
  "adds ({e. phase e = 1} \<union> handler_events) (stmt w (emit IrcCycle))"
  "adds ({e. phase e = 1} \<union> handler_events) (stmt w (emit ScanCycle))"
  by (intro adds_intros; simp)+

text \<open>The trace of one iteration, cut into what each of its five statements added.\<close>

lemma main_cycle_parts:
  obtains e1 e2 e3 e4 e5 where
    "trace (block [stmt w (emit IrcCycle), stmt w (emit ScanCycle)] s) = trace s @ e1 @ e2"
    "trace (block [stmt w (emit IrcCycle), stmt w (emit ScanCycle), check_restart b w] s)
       = trace s @ e1 @ e2 @ e3"
    "trace (main_cycle b w s) = trace s @ e1 @ e2 @ e3 @ e4 @ e5"
    "set (phases e1) \<subseteq> {1}" "set (phases e2) \<subseteq> {1}" "set (phases e3) \<subseteq> {2}"
    "set (phases e4) \<subseteq> {3}" "set (phases e5) \<subseteq> {4}"
proof -
  define t1 where "t1 = block [stmt w (emit IrcCycle)] s"
  define t2 where "t2 = block [stmt w (emit ScanCycle)] t1"
  define t3 where "t3 = block [check_restart b w] t2"
  define t4 where "t4 = block [check_reopen w] t3"
  define t5 where "t5 = block [check_alarmed w] t4"
  obtain e1 where e1: "trace t1 = trace s @ e1" "set e1 \<subseteq> {e. phase e = 1} \<union> handler_events"
    unfolding t1_def using addsD [OF adds_single [OF adds_progress(1)]] by blast
  obtain e2 where e2: "trace t2 = trace t1 @ e2" "set e2 \<subseteq> {e. phase e = 1} \<union> handler_events"
    unfolding t2_def using addsD [OF adds_single [OF adds_progress(2)]] by blast
  obtain e3 where e3: "trace t3 = trace t2 @ e3" "set e3 \<subseteq> {e. phase e = 2} \<union> handler_events"
    unfolding t3_def using addsD [OF adds_single [OF adds_check_restart]] by blast
  obtain e4 where e4: "trace t4 = trace t3 @ e4" "set e4 \<subseteq> {e. phase e = 3} \<union> handler_events"
    unfolding t4_def using addsD [OF adds_single [OF adds_check_reopen]] by blast
  obtain e5 where e5: "trace t5 = trace t4 @ e5" "set e5 \<subseteq> {e. phase e = 4} \<union> handler_events"
    unfolding t5_def using addsD [OF adds_single [OF adds_check_alarmed]] by blast
  have b2: "block [stmt w (emit IrcCycle), stmt w (emit ScanCycle)] s = t2"
    unfolding t2_def t1_def by (rule block2)
  have b3: "block [stmt w (emit IrcCycle), stmt w (emit ScanCycle), check_restart b w] s = t3"
    unfolding t3_def t2_def t1_def by (rule block3)
  have b5: "main_cycle b w s = t5"
    unfolding main_cycle_def t5_def t4_def t3_def t2_def t1_def by (rule block5)
  show thesis
  proof (rule that [of e1 e2 e3 e4 e5])
    show "trace (block [stmt w (emit IrcCycle), stmt w (emit ScanCycle)] s) = trace s @ e1 @ e2"
      using b2 e1 e2 by simp
    show "trace (block [stmt w (emit IrcCycle), stmt w (emit ScanCycle), check_restart b w] s)
       = trace s @ e1 @ e2 @ e3"
      using b3 e1 e2 e3 by simp
    show "trace (main_cycle b w s) = trace s @ e1 @ e2 @ e3 @ e4 @ e5"
      using b5 e1 e2 e3 e4 e5 by simp
  qed (use e1 e2 e3 e4 e5 phases_subset in blast)+
qed


lemma check_restart_taken:
  assumes "halted s = None" and "halted (point w s) = None"
  shows "check_restart b w s
           = (if RESTART (point w s) \<noteq> 0 then restart b w (point w s) else point w s)"
  using assms by (simp add: check_restart_def stmt_def)

subsection \<open>Option parsing\<close>

lemma getopt_loop_frame:
  "trace (getopt_loop rs s) = trace s \<and> halted (getopt_loop rs s) = halted s
   \<and> errno (getopt_loop rs s) = errno s \<and> clock (getopt_loop rs s) = clock s
   \<and> RESTART (getopt_loop rs s) = RESTART s \<and> ALARMED (getopt_loop rs s) = ALARMED s
   \<and> REOPEN (getopt_loop rs s) = REOPEN s"
  by (induction rs s rule: getopt_loop.induct) auto


subsection \<open>Runs without an interrupt\<close>

lemma arrive_trace_quiet:
  "a \<noteq> Deliver SIGINT \<Longrightarrow> \<exists>evs. trace (arrive a s) = trace s @ evs \<and> set evs \<subseteq> {Alarm 1}"
proof (cases a)
  case (Deliver sg)
  assume "a \<noteq> Deliver SIGINT"
  with Deliver show ?thesis by (cases sg) (simp_all add: prim_defs)
next
  case CallMainRestart
  then show ?thesis by (simp add: main_restart_def)
qed

lemma arrivals_trace_quiet:
  "Deliver SIGINT \<notin> set as \<Longrightarrow>
   \<exists>evs. trace (block (map arrive as) s) = trace s @ evs \<and> set evs \<subseteq> {Alarm 1}"
proof (induction as arbitrary: s)
  case Nil
  then show ?case by simp
next
  case (Cons a as)
  then have a: "a \<noteq> Deliver SIGINT" and as: "Deliver SIGINT \<notin> set as" by auto
  show ?case
  proof (cases "halted s = None")
    case True
    obtain e1 where e1: "trace (arrive a s) = trace s @ e1" "set e1 \<subseteq> {Alarm 1}"
      using arrive_trace_quiet [OF a] by blast
    obtain e2 where e2: "trace (block (map arrive as) (arrive a s)) = trace (arrive a s) @ e2"
      "set e2 \<subseteq> {Alarm 1}"
      using Cons.IH [OF as] by blast
    from True e1 e2 have "trace (block (map arrive (a # as)) s) = trace s @ (e1 @ e2)"
      "set (e1 @ e2) \<subseteq> {Alarm 1}" by simp_all
    then show ?thesis by blast
  next
    case False
    then show ?thesis by auto
  qed
qed

lemma point_trace_quiet:
  "no_interrupt w \<Longrightarrow> \<exists>evs. trace (point w s) = trace s @ evs \<and> set evs \<subseteq> {Alarm 1}"
  using arrivals_trace_quiet [of "sched w (clock s)" "s\<lparr>clock := Suc (clock s)\<rparr>"]
  by (simp add: point_def no_interrupt_def)

lemma point_filter_quiet:
  assumes "no_interrupt w" and "\<not> P (Alarm 1)"
  shows "filter P (trace (point w s)) = filter P (trace s)"
proof -
  obtain evs where evs: "trace (point w s) = trace s @ evs" "set evs \<subseteq> {Alarm 1}"
    using point_trace_quiet [OF assms(1)] by blast
  with assms(2) have "filter P evs = []" by (auto simp: filter_empty_conv)
  with evs show ?thesis by simp
qed

lemma stmt_quiet: "no_interrupt w \<Longrightarrow> halted s = None \<Longrightarrow> stmt w f s = f (point w s)"
  by (simp add: stmt_def point_running)

subsection \<open>Delivery points and the debug refusal\<close>

lemma point_filter_execv: "filter is_execv (trace (point w s)) = filter is_execv (trace s)"
  by (rule point_filter) (auto simp: handler_events_def)

lemma point_filter_timer: "filter is_timer (trace (point w s)) = filter is_timer (trace s)"
  by (rule point_filter) (auto simp: handler_events_def)

lemma restart_debug:
  assumes "halted s = None" and "OPT_DEBUG s \<noteq> 0"
  shows "restart b w s
           = (if halted (point w s) = None then halt (Exited 1) (point w s) else point w s)"
proof -
  define r where "r = stmt w (\<lambda>s. if OPT_DEBUG s \<noteq> 0 then halt (Exited 1) s else s) s"
  have r: "r = (if halted (point w s) = None then halt (Exited 1) (point w s) else point w s)"
    using assms by (simp add: r_def stmt_def point_frame)
  then have "halted r \<noteq> None"
    by (simp add: halt_def)
  then have "block fs r = r" for fs
    by (rule block_halted)
  with assms(1) have "restart b w s = r"
    unfolding restart_def r_def by (simp del: block.simps add: block.simps(2))
  with r show ?thesis by simp
qed

lemma block_stmt: "block [stmt w f] s = stmt w f s"
  by (simp add: stmt_def)

subsection \<open>The restart branch and the timers, step by step\<close>

lemma main_cycle_restart_quiet:
  assumes "no_interrupt w" and "halted s = None" and "RESTART s \<noteq> 0"
  shows "main_cycle b w s
           = restart b w (point w (emit ScanCycle (point w (emit IrcCycle (point w s)))))"
proof -
  define t2 where "t2 = emit ScanCycle (point w (emit IrcCycle (point w s)))"
  have t2: "block [stmt w (emit ScanCycle)] (block [stmt w (emit IrcCycle)] s) = t2"
    using assms(1,2) by (simp add: t2_def stmt_quiet point_running emit_def)
  have run: "halted t2 = None" "halted (point w t2) = None"
    using assms(1,2) by (simp_all add: t2_def point_running emit_def)
  have "RESTART (point w (emit IrcCycle (point w s))) \<noteq> 0"
    using assms(3) point_flags [of s w] point_flags [of "emit IrcCycle (point w s)" w]
    by (simp add: emit_def)
  then have flag: "RESTART (point w t2) \<noteq> 0"
    using point_flags [of t2 w] by (simp add: t2_def emit_def)
  have t3: "block [check_restart b w] t2 = restart b w (point w t2)"
    using check_restart_taken [OF run, of b] flag run(1) by simp
  have "halted (restart b w (point w t2)) \<noteq> None"
    by (rule restart_halts)
  then have "block [check_alarmed w] (block [check_reopen w] (restart b w (point w t2)))
      = restart b w (point w t2)"
    using block_halted [of "restart b w (point w t2)"] by (simp del: block.simps)
  then show ?thesis
    unfolding main_cycle_def by (simp only: block5 t2 t3) (simp only: t2_def)
qed

lemma restart_spins:
  assumes "no_interrupt w" and "halted s = None" and "OPT_DEBUG s = 0"
    and "rlimit_nofile w = Some c" and "0x100000000 \<le> c"
  shows "halted (restart b w s) = Some Spinning
    \<and> filter is_execv (trace (restart b w s)) = filter is_execv (trace s)"
proof -
  define s3 where "s3 = emit GetrlimitNofile
      (point w (emit (LogPrintf ''MAIN -> Restarting process'' []) (point w (point w s))))"
  have run3: "halted s3 = None"
    using assms(1,2) by (simp add: s3_def point_running emit_def)
  have head: "block [stmt w (emit GetrlimitNofile)]
      (block [stmt w (emit (LogPrintf ''MAIN -> Restarting process'' []))]
        (block [stmt w (\<lambda>s. if OPT_DEBUG s \<noteq> 0 then halt (Exited 1) s else s)] s)) = s3"
    using assms(1-3) by (simp add: s3_def stmt_quiet point_running point_frame emit_def)
  have "cloexec_loop w c 0 s3 = None"
    using assms(1,5) run3 by (rule cloexec_loop_diverges)
  then have spin: "cloexec_all w c s3 = halt Spinning s3"
    by (simp add: cloexec_all_def)
  have "block [cloexec_all w c, exec_new b w] s3 = halt Spinning s3"
    using run3 spin by (simp add: halt_def)
  moreover have "restart b w s = block [block [cloexec_all w c, exec_new b w]] s3"
    unfolding restart_def by (simp only: block4 head assms(4) option.case)
  moreover have "block [block [cloexec_all w c, exec_new b w]] s3
      = block [cloexec_all w c, exec_new b w] s3"
    using run3 by (simp add: block_single del: block.simps)
  ultimately have "restart b w s = halt Spinning s3"
    by simp
  moreover have "filter is_execv (trace s3) = filter is_execv (trace s)"
    by (simp add: s3_def emit_def point_filter_execv)
  ultimately show ?thesis by (simp add: halt_def)
qed

lemma point_filter_fcntl: "filter is_fcntl (trace (point w s)) = filter is_fcntl (trace s)"
  by (rule point_filter) (auto simp: handler_events_def)

lemma cloexec_loop_exact:
  assumes "no_interrupt w" and "c \<le> 0xFFFFFFFF" and "halted s = None"
  shows "\<exists>s'. cloexec_loop w c i s = Some s' \<and> halted s' = None
           \<and> OPT_DEBUG s' = OPT_DEBUG s
           \<and> filter is_fcntl (trace s')
               = filter is_fcntl (trace s) @ map (\<lambda>n. Fcntl (of_nat n)) [unat i..<unat c]
           \<and> filter is_execv (trace s') = filter is_execv (trace s)"
  using assms(3)
proof (induction "unat c - unat i" arbitrary: i s)
  case 0
  then have "\<not> ucast i < c" by (simp add: ucast_less_iff)
  with 0 show ?case by (subst cloexec_loop.simps) simp
next
  case (Suc n)
  from Suc(2) have lt: "unat i < unat c" by simp
  from assms(2) have "unat c \<le> 4294967295" by (simp add: word_le_nat_alt)
  with lt have "unat i < 4294967295" by simp
  then have inc: "unat (i + 1) = Suc (unat i)" by (rule unat_inc)
  define s1 where "s1 = stmt w (mark_cloexec w i) s"
  have s1: "s1 = mark_cloexec w i (point w s)"
    unfolding s1_def using assms(1) Suc(3) by (rule stmt_quiet)
  have run1: "halted s1 = None"
    using assms(1) Suc(3) by (simp add: s1 mark_running point_running)
  have tr1: "filter is_fcntl (trace s1) = filter is_fcntl (trace s) @ [Fcntl i]"
    "filter is_execv (trace s1) = filter is_execv (trace s)" "OPT_DEBUG s1 = OPT_DEBUG s"
    by (simp_all add: s1 mark_cloexec_def Let_def prim_defs point_filter_fcntl
        point_filter_execv point_frame)
  from Suc(2) inc have "n = unat c - unat (i + 1)" by simp
  from Suc(1) [OF this run1] obtain s' where s':
    "cloexec_loop w c (i + 1) s1 = Some s'" "halted s' = None" "OPT_DEBUG s' = OPT_DEBUG s1"
    "filter is_fcntl (trace s')
       = filter is_fcntl (trace s1) @ map (\<lambda>n. Fcntl (of_nat n)) [unat (i + 1)..<unat c]"
    "filter is_execv (trace s') = filter is_execv (trace s1)"
    by blast
  have "cloexec_loop w c i s = Some s'"
    using Suc(3) lt s'(1) by (subst cloexec_loop.simps) (simp add: ucast_less_iff s1_def)
  moreover have "[unat i..<unat c] = unat i # [unat (i + 1)..<unat c]"
    using lt inc by (simp add: upt_conv_Cons)
  ultimately show ?case
    using s' tr1 by simp
qed

text \<open>
  The restart branch outside debug mode, in a run without an interrupt: a failed
  ceiling query is logged and ends the process with status 1; a ceiling within the
  range of the counter has \<^verbatim>\<open>fcntl\<close> called for 0, 1, ... up to the ceiling, whether or
  not the calls succeed, before the one \<^verbatim>\<open>execv\<close>.
\<close>

lemma restart_marks_below_ceiling:
  assumes "no_interrupt w" and "halted s = None" and "OPT_DEBUG s = 0"
  shows "(rlimit_nofile w = None \<longrightarrow>
            halted (restart b w s) = Some (Exited 1)
            \<and> filter is_log (trace (restart b w s))
                = filter is_log (trace s)
                  @ [LogPrintf ''MAIN -> Restarting process'' [],
                     LogPrintf ''MAIN RESTART -> getrlimit() error retrieving RLIMIT_NOFILE (%s)''
                       [StrError (failure_errno w ''getrlimit'')]]
            \<and> filter is_fcntl (trace (restart b w s)) = filter is_fcntl (trace s)
            \<and> filter is_execv (trace (restart b w s)) = filter is_execv (trace s))
    \<and> (\<forall>c. rlimit_nofile w = Some c \<and> c \<le> 0xFFFFFFFF \<longrightarrow>
            filter is_fcntl (trace (restart b w s))
              = filter is_fcntl (trace s) @ map (\<lambda>n. Fcntl (of_nat n)) [0..<unat c]
            \<and> filter is_execv (trace (restart b w s))
              = filter is_execv (trace s) @ [Execv (HOPM_BINPATH b) (argv w)])"
proof -
  define s3 where "s3 = emit GetrlimitNofile
      (point w (emit (LogPrintf ''MAIN -> Restarting process'' []) (point w (point w s))))"
  have run3: "halted s3 = None"
    using assms(1,2) by (simp add: s3_def point_running emit_def)
  have head: "block [stmt w (emit GetrlimitNofile)]
      (block [stmt w (emit (LogPrintf ''MAIN -> Restarting process'' []))]
        (block [stmt w (\<lambda>s. if OPT_DEBUG s \<noteq> 0 then halt (Exited 1) s else s)] s)) = s3"
    using assms by (simp add: s3_def stmt_quiet point_running point_frame emit_def)
  have tr3: "filter is_fcntl (trace s3) = filter is_fcntl (trace s)"
    "filter is_execv (trace s3) = filter is_execv (trace s)"
    "filter is_log (trace s3)
       = filter is_log (trace s) @ [LogPrintf ''MAIN -> Restarting process'' []]"
    by (simp_all add: s3_def emit_def point_filter_fcntl point_filter_execv
        point_filter_quiet [OF assms(1)])
  have failed: "halted (restart b w s) = Some (Exited 1)
      \<and> filter is_log (trace (restart b w s))
          = filter is_log (trace s)
            @ [LogPrintf ''MAIN -> Restarting process'' [],
               LogPrintf ''MAIN RESTART -> getrlimit() error retrieving RLIMIT_NOFILE (%s)''
                 [StrError (failure_errno w ''getrlimit'')]]
      \<and> filter is_fcntl (trace (restart b w s)) = filter is_fcntl (trace s)
      \<and> filter is_execv (trace (restart b w s)) = filter is_execv (trace s)"
    if none: "rlimit_nofile w = None"
  proof -
    have "restart b w s = block [block
             [set_errno (failure_errno w ''getrlimit''),
              stmt w (\<lambda>s. emit (LogPrintf
                 ''MAIN RESTART -> getrlimit() error retrieving RLIMIT_NOFILE (%s)''
                 [StrError (errno s)]) s),
              stmt w (halt (Exited 1))]] s3"
      unfolding restart_def by (simp only: block4 head none option.case)
    also have "\<dots> = halt (Exited 1) (point w (emit (LogPrintf
                 ''MAIN RESTART -> getrlimit() error retrieving RLIMIT_NOFILE (%s)''
                 [StrError (failure_errno w ''getrlimit'')])
                 (point w (set_errno (failure_errno w ''getrlimit'') s3))))"
      using run3 assms(1)
      by (simp add: stmt_quiet point_running point_frame prim_defs)
    finally show ?thesis
      using tr3
      by (simp add: prim_defs point_filter_fcntl point_filter_execv
          point_filter_quiet [OF assms(1)])
  qed
  have marked: "filter is_fcntl (trace (restart b w s))
              = filter is_fcntl (trace s) @ map (\<lambda>n. Fcntl (of_nat n)) [0..<unat c]
            \<and> filter is_execv (trace (restart b w s))
              = filter is_execv (trace s) @ [Execv (HOPM_BINPATH b) (argv w)]"
    if some: "rlimit_nofile w = Some c" and fits: "c \<le> 0xFFFFFFFF" for c
  proof -
    obtain s4 where s4: "cloexec_loop w c 0 s3 = Some s4" "halted s4 = None"
      "filter is_fcntl (trace s4)
         = filter is_fcntl (trace s3) @ map (\<lambda>n. Fcntl (of_nat n)) [unat (0 :: 32 word)..<unat c]"
      "filter is_execv (trace s4) = filter is_execv (trace s3)"
      using cloexec_loop_exact [OF assms(1) fits run3, of 0] by blast
    have all: "cloexec_all w c s3 = s4"
      by (simp add: cloexec_all_def s4(1))
    have "restart b w s = block [block [cloexec_all w c, exec_new b w]] s3"
      unfolding restart_def by (simp only: block4 head some option.case)
    also have "\<dots> = exec_new b w s4"
      using run3 s4(2) all by simp
    finally have eq: "restart b w s = exec_new b w s4" .
    define s5 where "s5 = emit (Execv (HOPM_BINPATH b) (argv w)) (point w s4)"
    have run5: "halted s5 = None"
      using assms(1) s4(2) by (simp add: s5_def point_running emit_def)
    have tr5: "filter is_fcntl (trace s5) = filter is_fcntl (trace s4)"
      "filter is_execv (trace s5) = filter is_execv (trace s4) @ [Execv (HOPM_BINPATH b) (argv w)]"
      by (simp_all add: s5_def emit_def point_filter_fcntl point_filter_execv)
    have "filter is_fcntl (trace (exec_new b w s4)) = filter is_fcntl (trace s5)
      \<and> filter is_execv (trace (exec_new b w s4)) = filter is_execv (trace s5)"
      using assms(1) s4(2) run5
      by (simp add: exec_new_def stmt_quiet point_running point_frame prim_defs s5_def
          point_filter_fcntl point_filter_execv)
    with eq tr5 s4 tr3 show ?thesis by simp
  qed
  from failed marked show ?thesis by blast
qed

lemma stmt_running:
  "halted s = None \<Longrightarrow>
   stmt w f s = (if halted (point w s) = None then f (point w s) else point w s)"
  by (simp add: stmt_def)

lemma stmt_halted: "halted s \<noteq> None \<Longrightarrow> stmt w f s = s"
  unfolding stmt_def by (rule block_halted)

lemma timers_stmts:
  "timers w s
     = stmt w (\<lambda>s. s\<lparr>ALARMED := 0\<rparr>)
         (stmt w (emit CommandTimer) (stmt w (emit ScanTimer) (stmt w (emit IrcTimer) s)))"
  unfolding timers_def by (simp only: block4 block_stmt)

subsection \<open>A start-up that reaches the loop\<close>

lemma getopt_loop_trace_update:
  "getopt_loop rs (s\<lparr>trace := t\<rparr>) = (getopt_loop rs s)\<lparr>trace := t\<rparr>"
proof (induction rs arbitrary: s)
  case Nil
  show ?case by simp
next
  case (Cons r rs)
  obtain c a where r: "r = (c, a)" by (cases r)
  have 1: "s\<lparr>trace := t, CONFNAME := a\<rparr> = s\<lparr>CONFNAME := a, trace := t\<rparr>"
    and 2: "s\<lparr>trace := t, OPT_DEBUG := OPT_DEBUG s + 1\<rparr>
              = s\<lparr>OPT_DEBUG := OPT_DEBUG s + 1, trace := t\<rparr>"
    by simp_all
  show ?case
    using Cons [of "s\<lparr>CONFNAME := a\<rparr>"] Cons [of "s\<lparr>OPT_DEBUG := OPT_DEBUG s + 1\<rparr>"] Cons [of s]
    by (simp add: r 1 2)
qed

lemma snprintf_path_fits:
  "snprintf_path (length dir + length name + length ext + 3) dir name ext
     = dir @ ''/'' @ name @ ''.'' @ ext"
  by (simp add: snprintf_path_def)

lemma block_step:
  assumes "halted (block (f # fs) s) = None" and "halted s = None"
  shows "halted (f s) = None \<and> halted (block fs (f s)) = None"
proof -
  from assms have eq: "block (f # fs) s = block fs (f s)" by simp
  have "halted (f s) = None"
  proof (rule ccontr)
    assume "halted (f s) \<noteq> None"
    then have "block fs (f s) = f s" by (rule block_halted)
    with eq assms(1) \<open>halted (f s) \<noteq> None\<close> show False by simp
  qed
  with eq assms(1) show ?thesis by simp
qed

lemma pledge_or_err_completes:
  "halted (pledge_or_err w p s) = None \<Longrightarrow> pledge_or_err w p s = emit (Pledge p) s"
  by (simp add: pledge_or_err_def err_def prim_defs Let_def split: if_splits)

lemma unveil_or_err_completes:
  "halted (unveil_or_err w path perms s) = None \<Longrightarrow>
   unveil_or_err w path perms s = emit (Unveil path perms) s"
  by (simp add: unveil_or_err_def err_def prim_defs Let_def split: if_splits)

lemma chdir_or_exit_completes:
  "halted (chdir_or_exit b w s) = None \<Longrightarrow> chdir_or_exit b w s = emit (Chdir (HOPM_PREFIX b)) s"
  by (simp add: chdir_or_exit_def perror_def prim_defs Let_def split: if_splits)

lemma fork_off_completes:
  assumes "halted (fork_off w s) = None"
  shows "fork_off w s = emit Fork s"
proof (cases "fork_result w = 0")
  case True
  then show ?thesis by (simp add: fork_off_def Let_def)
next
  case False
  with assms show ?thesis
    by (cases "fork_result w < 0") (simp_all add: fork_off_def perror_def prim_defs Let_def)
qed

lemma setpgid_or_exit_completes:
  assumes "halted (setpgid_or_exit w s) = None"
  shows "setpgid_or_exit w s = emit Setpgid s"
proof (cases "setpgid_ok w")
  case True
  then show ?thesis by (simp add: setpgid_or_exit_def Let_def)
next
  case False
  with assms show ?thesis
    by (simp add: setpgid_or_exit_def perror_def prim_defs Let_def)
qed

lemma redirect_std_completes:
  assumes "halted (redirect_std w s) = None"
  shows "redirect_std w s
     = s\<lparr>trace := trace s
          @ [Open ''/dev/null'', Dup2 (open_devnull w) 0, Dup2 (open_devnull w) 1,
             Dup2 (open_devnull w) 2]
          @ (if open_devnull w > 2 then [Close (open_devnull w)] else [])\<rparr>"
proof (cases "open_devnull w < 0")
  case True
  with assms show ?thesis
    by (simp add: redirect_std_def perror_def prim_defs Let_def)
next
  case False
  then show ?thesis
    by (simp add: redirect_std_def prim_defs Let_def STDIN_FILENO_def
      STDOUT_FILENO_def STDERR_FILENO_def)
qed

lemma daemonize_completes:
  assumes run: "halted s = None" and fin: "halted (daemonize w s) = None"
  shows "daemonize w s
     = s\<lparr>trace := trace s
          @ (if OPT_DEBUG s = 0
             then [Fork, Setpgid, Umask 63, Open ''/dev/null'', Dup2 (open_devnull w) 0,
                   Dup2 (open_devnull w) 1, Dup2 (open_devnull w) 2]
                  @ (if open_devnull w > 2 then [Close (open_devnull w)] else [])
                  @ [Unveil (LOGFILE s) ''wc'', LogOpen (LOGFILE s)]
             else [LogPrintf ''MAIN -> Debug level %d'' [UInt (OPT_DEBUG s)]])\<rparr>"
proof (cases "OPT_DEBUG s = 0")
  case False
  then show ?thesis by (simp add: daemonize_def emit_def)
next
  case True
  with fin have fin': "halted (block
        [fork_off w, setpgid_or_exit w, emit (Umask 63), redirect_std w,
         (\<lambda>s. unveil_or_err w (LOGFILE s) ''wc'' s),
         (\<lambda>s. emit (LogOpen (LOGFILE s)) s)] s) = None"
    by (simp add: daemonize_def)
  note B1 = block_step [OF fin' run]
  note B2 = block_step [OF B1 [THEN conjunct2] B1 [THEN conjunct1]]
  note B3 = block_step [OF B2 [THEN conjunct2] B2 [THEN conjunct1]]
  note B4 = block_step [OF B3 [THEN conjunct2] B3 [THEN conjunct1]]
  note B5 = block_step [OF B4 [THEN conjunct2] B4 [THEN conjunct1]]
  note B6 = block_step [OF B5 [THEN conjunct2] B5 [THEN conjunct1]]
  note R = B1 [THEN conjunct1] B2 [THEN conjunct1] B3 [THEN conjunct1] B4 [THEN conjunct1]
    B5 [THEN conjunct1] B6 [THEN conjunct1]
  define s1 where "s1 = emit Fork s"
  define s2 where "s2 = emit Setpgid s1"
  define s3 where "s3 = emit (Umask 63) s2"
  define s4 where "s4 = s3\<lparr>trace := trace s3
          @ [Open ''/dev/null'', Dup2 (open_devnull w) 0, Dup2 (open_devnull w) 1,
             Dup2 (open_devnull w) 2]
          @ (if open_devnull w > 2 then [Close (open_devnull w)] else [])\<rparr>"
  define s5 where "s5 = emit (Unveil (LOGFILE s4) ''wc'') s4"
  define s6 where "s6 = emit (LogOpen (LOGFILE s5)) s5"
  have e1: "fork_off w s = s1"
    unfolding s1_def by (rule fork_off_completes) (rule R(1))
  have e2: "setpgid_or_exit w s1 = s2"
    unfolding s2_def by (rule setpgid_or_exit_completes) (use R(2) e1 in simp)
  have e4: "redirect_std w s3 = s4"
    unfolding s4_def by (rule redirect_std_completes) (use R(4) e1 e2 in \<open>simp add: s3_def\<close>)
  have e5: "unveil_or_err w (LOGFILE s4) ''wc'' s4 = s5"
    unfolding s5_def by (rule unveil_or_err_completes)
      (use R(5) e1 e2 e4 in \<open>simp add: s3_def\<close>)
  have "block
        [fork_off w, setpgid_or_exit w, emit (Umask 63), redirect_std w,
         (\<lambda>s. unveil_or_err w (LOGFILE s) ''wc'' s),
         (\<lambda>s. emit (LogOpen (LOGFILE s)) s)] s = s6"
    using run R e1 e2 e4 e5 by (simp add: s3_def s6_def)
  moreover have "s6 = s\<lparr>trace := trace s
          @ [Fork, Setpgid, Umask 63, Open ''/dev/null'', Dup2 (open_devnull w) 0,
                   Dup2 (open_devnull w) 1, Dup2 (open_devnull w) 2]
                  @ (if open_devnull w > 2 then [Close (open_devnull w)] else [])
                  @ [Unveil (LOGFILE s) ''wc'', LogOpen (LOGFILE s)]\<rparr>"
    by (simp add: s6_def s5_def s4_def s3_def s2_def s1_def emit_def)
  ultimately show ?thesis
    using True by (simp add: daemonize_def)
qed

lemma open_scanlog_completes:
  assumes run: "halted s = None" and fin: "halted (open_scanlog w s) = None"
  shows "open_scanlog w s
     = s\<lparr>trace := trace s
          @ (case scanlog s of None \<Rightarrow> []
             | Some path \<Rightarrow> [Unveil path ''wc'', ScanlogOpen path])\<rparr>"
proof (cases "scanlog s")
  case None
  then show ?thesis by (simp add: open_scanlog_def)
next
  case (Some path)
  with fin have fin': "halted (block [unveil_or_err w path ''wc'', emit (ScanlogOpen path)] s)
      = None"
    by (simp add: open_scanlog_def)
  note B1 = block_step [OF fin' run]
  have "unveil_or_err w path ''wc'' s = emit (Unveil path ''wc'') s"
    by (rule unveil_or_err_completes) (rule B1 [THEN conjunct1])
  with run Some show ?thesis
    by (simp add: open_scanlog_def emit_def)
qed

lemma startup_paths_complete:
  assumes run: "halted s = None" and fin: "halted (startup_paths b w s) = None"
  defines "opts \<equiv> getopt_loop (getopt_returns w) s"
  defines "cf \<equiv> HOPM_ETCDIR b @ ''/'' @ CONFNAME opts @ ''.'' @ CONFEXT b"
  defines "lf \<equiv> HOPM_LOGDIR b @ ''/'' @ CONFNAME opts @ ''.'' @ LOGEXT b"
  shows "startup_paths b w s
     = opts\<lparr>CONFFILE := cf, LOGFILE := lf, scanlog := cfg_scanlog w, pidfile := cfg_pidfile w,
         trace := trace s
           @ [Pledge ''stdio rpath wpath cpath inet dns proc exec unveil'', Unveil ''/'' '''',
              GetrlimitCore]
           @ (if getrlimit_core_ok w then [SetrlimitCore] else [])
           @ [Unveil (HOPM_PREFIX b) ''r'', Chdir (HOPM_PREFIX b)]
           @ (if OPT_DEBUG opts = 0
              then [Fork, Setpgid, Umask 63, Open ''/dev/null'', Dup2 (open_devnull w) 0,
                    Dup2 (open_devnull w) 1, Dup2 (open_devnull w) 2]
                   @ (if open_devnull w > 2 then [Close (open_devnull w)] else [])
                   @ [Unveil lf ''wc'', LogOpen lf]
              else [LogPrintf ''MAIN -> Debug level %d'' [UInt (OPT_DEBUG opts)]])
           @ [LogPrintf ''MAIN -> HOPM %s started.'' [Str (VERSION b)],
              LogPrintf ''MAIN -> Reading configuration file...'' [],
              Unveil cf ''r'', ConfigLoad cf]
           @ (case cfg_scanlog w of None \<Rightarrow> []
              | Some path \<Rightarrow> [Unveil path ''wc'', ScanlogOpen path])
           @ [Unveil (cfg_pidfile w) ''wc'']\<rparr>"
proof -
  define P where "P = ''stdio rpath wpath cpath inet dns proc exec unveil''"
  define started where "started = LogPrintf ''MAIN -> HOPM %s started.'' [Str (VERSION b)]"
  define reading where "reading = LogPrintf ''MAIN -> Reading configuration file...'' []"
  have fin': "halted (block
       [pledge_or_err w P, unveil_or_err w ''/'' '''', setup_corelimit w,
        getopt_loop (getopt_returns w), resolve_paths b,
        unveil_or_err w (HOPM_PREFIX b) ''r'', chdir_or_exit b w, daemonize w,
        emit started, emit reading,
        (\<lambda>s. unveil_or_err w (CONFFILE s) ''r'' s), config_load w, open_scanlog w,
        (\<lambda>s. unveil_or_err w (pidfile s) ''wc'' s)] s) = None"
    using fin by (simp only: startup_paths_def P_def started_def reading_def)
  note B1 = block_step [OF fin' run]
  note B2 = block_step [OF B1 [THEN conjunct2] B1 [THEN conjunct1]]
  note B3 = block_step [OF B2 [THEN conjunct2] B2 [THEN conjunct1]]
  note B4 = block_step [OF B3 [THEN conjunct2] B3 [THEN conjunct1]]
  note B5 = block_step [OF B4 [THEN conjunct2] B4 [THEN conjunct1]]
  note B6 = block_step [OF B5 [THEN conjunct2] B5 [THEN conjunct1]]
  note B7 = block_step [OF B6 [THEN conjunct2] B6 [THEN conjunct1]]
  note B8 = block_step [OF B7 [THEN conjunct2] B7 [THEN conjunct1]]
  note B9 = block_step [OF B8 [THEN conjunct2] B8 [THEN conjunct1]]
  note B10 = block_step [OF B9 [THEN conjunct2] B9 [THEN conjunct1]]
  note B11 = block_step [OF B10 [THEN conjunct2] B10 [THEN conjunct1]]
  note B12 = block_step [OF B11 [THEN conjunct2] B11 [THEN conjunct1]]
  note B13 = block_step [OF B12 [THEN conjunct2] B12 [THEN conjunct1]]
  note B14 = block_step [OF B13 [THEN conjunct2] B13 [THEN conjunct1]]
  define s1 where "s1 = emit (Pledge P) s"
  define s2 where "s2 = emit (Unveil ''/'' '''') s1"
  define s3 where "s3 = setup_corelimit w s2"
  define s4 where "s4 = getopt_loop (getopt_returns w) s3"
  define s5 where "s5 = resolve_paths b s4"
  define s6 where "s6 = emit (Unveil (HOPM_PREFIX b) ''r'') s5"
  define s7 where "s7 = emit (Chdir (HOPM_PREFIX b)) s6"
  define s8 where "s8 = s7\<lparr>trace := trace s7
          @ (if OPT_DEBUG s7 = 0
             then [Fork, Setpgid, Umask 63, Open ''/dev/null'', Dup2 (open_devnull w) 0,
                   Dup2 (open_devnull w) 1, Dup2 (open_devnull w) 2]
                  @ (if open_devnull w > 2 then [Close (open_devnull w)] else [])
                  @ [Unveil (LOGFILE s7) ''wc'', LogOpen (LOGFILE s7)]
             else [LogPrintf ''MAIN -> Debug level %d'' [UInt (OPT_DEBUG s7)]])\<rparr>"
  define s9 where "s9 = emit started s8"
  define s10 where "s10 = emit reading s9"
  define s11 where "s11 = emit (Unveil (CONFFILE s10) ''r'') s10"
  define s12 where "s12 = config_load w s11"
  define s13 where "s13 = s12\<lparr>trace := trace s12
          @ (case scanlog s12 of None \<Rightarrow> []
             | Some path \<Rightarrow> [Unveil path ''wc'', ScanlogOpen path])\<rparr>"
  define s14 where "s14 = emit (Unveil (pidfile s13) ''wc'') s13"
  have e1: "pledge_or_err w P s = s1"
    unfolding s1_def by (rule pledge_or_err_completes) (rule B1 [THEN conjunct1])
  have e2: "unveil_or_err w ''/'' '''' s1 = s2"
    unfolding s2_def by (rule unveil_or_err_completes) (use B2 e1 in simp)
  have e3: "setup_corelimit w s2 = s3" "getopt_loop (getopt_returns w) s3 = s4"
    "resolve_paths b s4 = s5"
    by (simp_all only: s3_def s4_def s5_def)
  have e6: "unveil_or_err w (HOPM_PREFIX b) ''r'' s5 = s6"
    unfolding s6_def by (rule unveil_or_err_completes) (use B6 e1 e2 e3 in simp)
  have e7: "chdir_or_exit b w s6 = s7"
    unfolding s7_def by (rule chdir_or_exit_completes) (use B7 e1 e2 e3 e6 in simp)
  have h7: "halted s7 = None"
    using B7 e1 e2 e3 e6 e7 by simp
  have h8: "halted (daemonize w s7) = None"
    using B8 e1 e2 e3 e6 e7 by simp
  have e8: "daemonize w s7 = s8"
    unfolding s8_def by (rule daemonize_completes [OF h7 h8])
  have e9: "emit started s8 = s9" "emit reading s9 = s10"
    by (simp_all only: s9_def s10_def)
  have e11: "unveil_or_err w (CONFFILE s10) ''r'' s10 = s11"
    unfolding s11_def by (rule unveil_or_err_completes) (use B11 e1 e2 e3 e6 e7 e8 e9 in simp)
  have e12: "config_load w s11 = s12"
    by (simp only: s12_def)
  have h12: "halted s12 = None"
    using B12 e1 e2 e3 e6 e7 e8 e9 e11 e12 by simp
  have h13: "halted (open_scanlog w s12) = None"
    using B13 e1 e2 e3 e6 e7 e8 e9 e11 e12 by simp
  have e13: "open_scanlog w s12 = s13"
    unfolding s13_def by (rule open_scanlog_completes [OF h12 h13])
  have e14: "unveil_or_err w (pidfile s13) ''wc'' s13 = s14"
    unfolding s14_def by (rule unveil_or_err_completes)
      (use B14 e1 e2 e3 e6 e7 e8 e9 e11 e12 e13 in simp)
  have whole: "startup_paths b w s = s14"
    unfolding startup_paths_def P_def [symmetric] started_def [symmetric] reading_def [symmetric]
    using run B1 B2 B3 B4 B5 B6 B7 B8 B9 B10 B11 B12 B13 B14
      e1 e2 e3 e6 e7 e8 e9 e11 e12 e13 e14
    by simp
  have f4: "s4 = opts\<lparr>trace := trace s @ [Pledge P, Unveil ''/'' '''', GetrlimitCore]
           @ (if getrlimit_core_ok w then [SetrlimitCore] else [])\<rparr>"
    by (simp add: s4_def s3_def s2_def s1_def emit_def setup_corelimit_def Let_def opts_def
        getopt_loop_trace_update)
  have f7: "s7 = opts\<lparr>CONFFILE := cf, LOGFILE := lf,
         trace := trace s @ [Pledge P, Unveil ''/'' '''', GetrlimitCore]
           @ (if getrlimit_core_ok w then [SetrlimitCore] else [])
           @ [Unveil (HOPM_PREFIX b) ''r'', Chdir (HOPM_PREFIX b)]\<rparr>"
    by (simp add: s7_def s6_def s5_def f4 emit_def resolve_paths_def Let_def snprintf_path_fits
        cf_def lf_def)
  have f10: "s10 = opts\<lparr>CONFFILE := cf, LOGFILE := lf,
         trace := trace s @ [Pledge P, Unveil ''/'' '''', GetrlimitCore]
           @ (if getrlimit_core_ok w then [SetrlimitCore] else [])
           @ [Unveil (HOPM_PREFIX b) ''r'', Chdir (HOPM_PREFIX b)]
           @ (if OPT_DEBUG opts = 0
              then [Fork, Setpgid, Umask 63, Open ''/dev/null'', Dup2 (open_devnull w) 0,
                    Dup2 (open_devnull w) 1, Dup2 (open_devnull w) 2]
                   @ (if open_devnull w > 2 then [Close (open_devnull w)] else [])
                   @ [Unveil lf ''wc'', LogOpen lf]
              else [LogPrintf ''MAIN -> Debug level %d'' [UInt (OPT_DEBUG opts)]])
           @ [started, reading]\<rparr>"
    by (simp add: s10_def s9_def s8_def f7 emit_def)
  have f14: "s14 = opts\<lparr>CONFFILE := cf, LOGFILE := lf, scanlog := cfg_scanlog w,
         pidfile := cfg_pidfile w,
         trace := trace s @ [Pledge P, Unveil ''/'' '''', GetrlimitCore]
           @ (if getrlimit_core_ok w then [SetrlimitCore] else [])
           @ [Unveil (HOPM_PREFIX b) ''r'', Chdir (HOPM_PREFIX b)]
           @ (if OPT_DEBUG opts = 0
              then [Fork, Setpgid, Umask 63, Open ''/dev/null'', Dup2 (open_devnull w) 0,
                    Dup2 (open_devnull w) 1, Dup2 (open_devnull w) 2]
                   @ (if open_devnull w > 2 then [Close (open_devnull w)] else [])
                   @ [Unveil lf ''wc'', LogOpen lf]
              else [LogPrintf ''MAIN -> Debug level %d'' [UInt (OPT_DEBUG opts)]])
           @ [started, reading, Unveil cf ''r'', ConfigLoad cf]
           @ (case cfg_scanlog w of None \<Rightarrow> []
              | Some path \<Rightarrow> [Unveil path ''wc'', ScanlogOpen path])
           @ [Unveil (cfg_pidfile w) ''wc'']\<rparr>"
    by (simp add: s14_def s13_def s12_def s11_def f10 emit_def config_load_def)
  show ?thesis
    unfolding whole f14 by (simp only: P_def started_def reading_def)
qed

lemma write_pid_completes:
  assumes "halted (write_pid w s) = None"
  shows "fopen_ok w
    \<and> write_pid w s = emit Fclose (emit (Fprintf (decimal (getpid w mod 2 ^ 32) @ [CHR 0x0A])) s)"
proof (cases "fopen_ok w")
  case True
  then show ?thesis by (simp add: write_pid_def)
next
  case False
  with assms show ?thesis by (simp add: write_pid_def prim_defs)
qed

lemma install_handlers_run:
  "halted s = None \<Longrightarrow>
   install_handlers s
     = s\<lparr>trace := trace s @ [Sigaction SIGALRM, Sigaction SIGINT, Sigaction SIGHUP,
          Sigaction SIGUSR1, SignalIgnore SIGPIPE, Alarm 1]\<rparr>"
  by (simp add: install_handlers_def emit_def)

lemma startup_pidfile_complete:
  assumes run: "halted s = None" and fin: "halted (startup_pidfile b w s) = None"
  shows "startup_pidfile b w s
     = s\<lparr>trace := trace s
          @ [Fopen (pidfile s) ''w'', Unveil (HOPM_BINPATH b) ''x'', Pledge ''stdio inet dns exec'',
             Fprintf (decimal (getpid w mod 2 ^ 32) @ [CHR 0x0A]), Fclose,
             Sigaction SIGALRM, Sigaction SIGINT, Sigaction SIGHUP, Sigaction SIGUSR1,
             SignalIgnore SIGPIPE, Alarm 1]\<rparr>"
proof -
  note fin' = fin [unfolded startup_pidfile_def]
  note B1 = block_step [OF fin' run]
  note B2 = block_step [OF B1 [THEN conjunct2] B1 [THEN conjunct1]]
  note B3 = block_step [OF B2 [THEN conjunct2] B2 [THEN conjunct1]]
  note B4 = block_step [OF B3 [THEN conjunct2] B3 [THEN conjunct1]]
  note B5 = block_step [OF B4 [THEN conjunct2] B4 [THEN conjunct1]]
  define s1 where "s1 = fopen_pidfile w s"
  define s2 where "s2 = emit (Unveil (HOPM_BINPATH b) ''x'') s1"
  define s3 where "s3 = emit (Pledge ''stdio inet dns exec'') s2"
  define s4 where "s4 = emit Fclose (emit (Fprintf (decimal (getpid w mod 2 ^ 32) @ [CHR 0x0A])) s3)"
  define s5 where "s5 = install_handlers s4"
  have e1: "fopen_pidfile w s = s1"
    by (simp only: s1_def)
  have e2: "unveil_or_err w (HOPM_BINPATH b) ''x'' s1 = s2"
    unfolding s2_def by (rule unveil_or_err_completes) (use B2 e1 in simp)
  have e3: "pledge_or_err w ''stdio inet dns exec'' s2 = s3"
    unfolding s3_def by (rule pledge_or_err_completes) (use B3 e1 e2 in simp)
  have h4: "halted (write_pid w s3) = None"
    using B4 e1 e2 e3 by simp
  note W = write_pid_completes [OF h4]
  have e4: "write_pid w s3 = s4"
    unfolding s4_def using W by simp
  have e5: "install_handlers s4 = s5"
    by (simp only: s5_def)
  have h4': "halted s4 = None"
    using B4 e1 e2 e3 e4 by simp
  have whole: "startup_pidfile b w s = s5"
    unfolding startup_pidfile_def
    using run B1 B2 B3 B4 B5 e1 e2 e3 e4 e5 by simp
  have "s1 = emit (Fopen (pidfile s) ''w'') s"
    using W by (simp add: s1_def fopen_pidfile_def Let_def)
  then have "s5 = s\<lparr>trace := trace s
          @ [Fopen (pidfile s) ''w'', Unveil (HOPM_BINPATH b) ''x'', Pledge ''stdio inet dns exec'',
             Fprintf (decimal (getpid w mod 2 ^ 32) @ [CHR 0x0A]), Fclose,
             Sigaction SIGALRM, Sigaction SIGINT, Sigaction SIGHUP, Sigaction SIGUSR1,
             SignalIgnore SIGPIPE, Alarm 1]\<rparr>"
    using h4' by (simp add: s5_def install_handlers_run) (simp add: s4_def s3_def s2_def emit_def)
  with whole show ?thesis by simp
qed

subsection \<open>The loop adds only its own events\<close>

lemma adds_main_cycle: "adds ({e. phase e \<noteq> 0} \<union> handler_events) (main_cycle b w)"
  unfolding main_cycle_def
  by (intro adds_block_Cons adds_block_Nil
      adds_mono [OF adds_progress(1)] adds_mono [OF adds_progress(2)]
      adds_mono [OF adds_check_restart] adds_mono [OF adds_check_reopen]
      adds_mono [OF adds_check_alarmed]) auto

lemma adds_main_loop: "adds ({e. phase e \<noteq> 0} \<union> handler_events) (main_loop n b w)"
proof (induction n)
  case 0
  show ?case by (simp add: adds_def)
next
  case (Suc n)
  have "adds ({e. phase e \<noteq> 0} \<union> handler_events) (\<lambda>s. main_loop n b w (main_cycle b w s))"
    by (rule adds_comp [OF adds_main_cycle Suc])
  then have "adds ({e. phase e \<noteq> 0} \<union> handler_events)
      (\<lambda>s. if halted s = None then main_loop n b w (main_cycle b w s) else s)"
    by (rule adds_if [OF _ adds_skip])
  then show ?case by (simp add: adds_def)
qed

lemma main_loop_filter:
  assumes "\<And>e. phase e \<noteq> 0 \<Longrightarrow> \<not> P e" and "\<And>e. e \<in> handler_events \<Longrightarrow> \<not> P e"
  shows "filter P (trace (main_loop n b w s)) = filter P (trace s)"
proof -
  obtain evs where evs: "trace (main_loop n b w s) = trace s @ evs"
    "set evs \<subseteq> {e. phase e \<noteq> 0} \<union> handler_events"
    using addsD [OF adds_main_loop] by blast
  with assms have "filter P evs = []"
    by (auto simp: filter_empty_conv)
  with evs show ?thesis by simp
qed

lemma main_unfold: "main n b w = main_loop n b w (startup b w (initial b))"
proof -
  have "halted (initial b) = None" by (simp add: initial_def)
  moreover have "main_loop n b w s = s" if "halted s \<noteq> None" for s
    using that by (cases n) auto
  ultimately show ?thesis
    by (cases "halted (startup b w (initial b)) = None") (auto simp: main_def)
qed

lemma startup_unfold:
  "halted s = None \<Longrightarrow>
   startup b w s
     = (if halted (startup_paths b w s) = None then startup_pidfile b w (startup_paths b w s)
        else startup_paths b w s)"
  by (simp add: startup_def)

lemma resolve_paths_files:
  "CONFFILE (resolve_paths b s) = HOPM_ETCDIR b @ ''/'' @ CONFNAME s @ ''.'' @ CONFEXT b"
  "LOGFILE (resolve_paths b s) = HOPM_LOGDIR b @ ''/'' @ CONFNAME s @ ''.'' @ LOGEXT b"
  by (simp_all add: resolve_paths_def Let_def snprintf_path_fits)

text \<open>The trace of a start-up that reaches the loop.\<close>

lemma startup_complete:
  assumes run: "halted s = None" and fin: "halted (startup b w s) = None"
  defines "opts \<equiv> getopt_loop (getopt_returns w) s"
  shows "trace (startup b w s)
     = trace s
       @ ([Pledge ''stdio rpath wpath cpath inet dns proc exec unveil'', Unveil ''/'' '''',
           GetrlimitCore]
          @ (if getrlimit_core_ok w then [SetrlimitCore] else [])
          @ [Unveil (HOPM_PREFIX b) ''r'', Chdir (HOPM_PREFIX b)]
          @ (if OPT_DEBUG opts = 0
             then [Fork, Setpgid, Umask 63, Open ''/dev/null'', Dup2 (open_devnull w) 0,
                   Dup2 (open_devnull w) 1, Dup2 (open_devnull w) 2]
                  @ (if open_devnull w > 2 then [Close (open_devnull w)] else [])
                  @ [Unveil (LOGFILE (resolve_paths b opts)) ''wc'',
                     LogOpen (LOGFILE (resolve_paths b opts))]
             else [LogPrintf ''MAIN -> Debug level %d'' [UInt (OPT_DEBUG opts)]])
          @ [LogPrintf ''MAIN -> HOPM %s started.'' [Str (VERSION b)],
             LogPrintf ''MAIN -> Reading configuration file...'' [],
             Unveil (CONFFILE (resolve_paths b opts)) ''r'',
             ConfigLoad (CONFFILE (resolve_paths b opts))]
          @ (case cfg_scanlog w of None \<Rightarrow> []
             | Some path \<Rightarrow> [Unveil path ''wc'', ScanlogOpen path])
          @ [Unveil (cfg_pidfile w) ''wc'', Fopen (cfg_pidfile w) ''w'',
             Unveil (HOPM_BINPATH b) ''x''])
       @ Pledge ''stdio inet dns exec''
         # [Fprintf (decimal (getpid w mod 2 ^ 32) @ [CHR 0x0A]), Fclose,
            Sigaction SIGALRM, Sigaction SIGINT, Sigaction SIGHUP, Sigaction SIGUSR1,
            SignalIgnore SIGPIPE, Alarm 1]"
proof -
  have p: "halted (startup_paths b w s) = None"
    using fin run by (cases "halted (startup_paths b w s)") (simp_all add: startup_unfold)
  with fin run have q: "halted (startup_pidfile b w (startup_paths b w s)) = None"
    by (simp add: startup_unfold)
  from p run have eq: "startup b w s = startup_pidfile b w (startup_paths b w s)"
    by (simp add: startup_unfold)
  note A = startup_paths_complete [OF run p]
  note B = startup_pidfile_complete [OF p q]
  have pf: "pidfile (startup_paths b w s) = cfg_pidfile w"
    by (subst A) simp
  have tr: "trace (startup_pidfile b w (startup_paths b w s))
      = trace (startup_paths b w s)
        @ [Fopen (cfg_pidfile w) ''w'', Unveil (HOPM_BINPATH b) ''x'', Pledge ''stdio inet dns exec'',
             Fprintf (decimal (getpid w mod 2 ^ 32) @ [CHR 0x0A]), Fclose,
             Sigaction SIGALRM, Sigaction SIGINT, Sigaction SIGHUP, Sigaction SIGUSR1,
             SignalIgnore SIGPIPE, Alarm 1]"
    by (subst B) (simp add: pf)
  show ?thesis
    unfolding eq tr by (subst A) (simp add: opts_def resolve_paths_files)
qed

lemma initial_running: "halted (initial b) = None" "trace (initial b) = []"
  by (simp_all add: initial_def)

lemma startup_event_phase:
  "is_unveil e \<Longrightarrow> phase e = 0" "is_pid_or_pledge e \<Longrightarrow> phase e = 0"
  "is_pid_file e \<Longrightarrow> phase e = 0"
  by (cases e; simp)+

lemma main_loop_filter_startup:
  "filter is_unveil (trace (main_loop n b w s)) = filter is_unveil (trace s)"
  "filter is_pid_or_pledge (trace (main_loop n b w s)) = filter is_pid_or_pledge (trace s)"
  "filter is_pid_file (trace (main_loop n b w s)) = filter is_pid_file (trace s)"
  by (rule main_loop_filter; use startup_event_phase in \<open>auto simp: handler_events_def\<close>)+



lemma main_loop_halted: "halted s \<noteq> None \<Longrightarrow> main_loop n b w s = s"
  by (cases n) auto

subsection \<open>The concrete installation, evaluated\<close>

lemmas startup_defs =
  startup_def startup_paths_def startup_pidfile_def pledge_or_err_def unveil_or_err_def
  setup_corelimit_def resolve_paths_def snprintf_path_def chdir_or_exit_def daemonize_def
  fork_off_def setpgid_or_exit_def redirect_std_def config_load_def open_scanlog_def
  fopen_pidfile_def write_pid_def install_handlers_def err_def perror_def initial_def
  EXIT_FAILURE_def EXIT_SUCCESS_def STDIN_FILENO_def STDOUT_FILENO_def STDERR_FILENO_def

lemma example_proc_value:
  "example_proc =
     \<lparr>RESTART = 0, ALARMED = 0, REOPEN = 0, OPT_DEBUG = 0,
      CONFNAME = ''test'', CONFFILE = ''/usr/local/etc/test.conf'',
      LOGFILE = ''/var/log/test.log'',
      scanlog = Some ''/var/log/scan.log'', pidfile = ''/var/run/hopm.pid'',
      errno = 0, clock = 0,
      trace =
        [Pledge ''stdio rpath wpath cpath inet dns proc exec unveil'',
         Unveil ''/'' '''',
         GetrlimitCore, SetrlimitCore,
         Unveil ''/usr/local'' ''r'',
         Chdir ''/usr/local'',
         Fork, Setpgid, Umask 63, Open ''/dev/null'',
         Dup2 3 0, Dup2 3 1, Dup2 3 2, Close 3,
         Unveil ''/var/log/test.log'' ''wc'',
         LogOpen ''/var/log/test.log'',
         LogPrintf ''MAIN -> HOPM %s started.'' [Str ''1.1.10''],
         LogPrintf ''MAIN -> Reading configuration file...'' [],
         Unveil ''/usr/local/etc/test.conf'' ''r'',
         ConfigLoad ''/usr/local/etc/test.conf'',
         Unveil ''/var/log/scan.log'' ''wc'',
         ScanlogOpen ''/var/log/scan.log'',
         Unveil ''/var/run/hopm.pid'' ''wc'',
         Fopen ''/var/run/hopm.pid'' ''w'',
         Unveil ''/usr/local/bin/hopm'' ''x'',
         Pledge ''stdio inet dns exec'',
         Fprintf (''4711'' @ [CHR 0x0A]),
         Fclose,
         Sigaction SIGALRM, Sigaction SIGINT, Sigaction SIGHUP, Sigaction SIGUSR1,
         SignalIgnore SIGPIPE, Alarm 1],
      halted = None\<rparr>"
  by (simp add: example_proc_def example_build_def example_world_def startup_defs prim_defs
      decimal.simps)

lemma example_pending_fields:
  "halted example_pending = None" "clock example_pending = 0"
  "RESTART example_pending = 1" "REOPEN example_pending = 1" "ALARMED example_pending = 1"
  "OPT_DEBUG example_pending = 0"
  by (simp_all add: example_pending_def example_proc_value)

lemma example_no_interrupt: "no_interrupt example_world"
  by (simp add: no_interrupt_def example_world_def)

lemma example_debug_value:
  "example_debug =
     \<lparr>RESTART = 1, ALARMED = 0, REOPEN = 0, OPT_DEBUG = 2,
      CONFNAME = ''hopm'', CONFFILE = ''/usr/local/etc/hopm.conf'',
      LOGFILE = ''/var/log/hopm.log'',
      scanlog = Some ''/var/log/scan.log'', pidfile = ''/var/run/hopm.pid'',
      errno = 0, clock = 0,
      trace =
        [Pledge ''stdio rpath wpath cpath inet dns proc exec unveil'',
         Unveil ''/'' '''',
         GetrlimitCore, SetrlimitCore,
         Unveil ''/usr/local'' ''r'',
         Chdir ''/usr/local'',
         LogPrintf ''MAIN -> Debug level %d'' [UInt 2],
         LogPrintf ''MAIN -> HOPM %s started.'' [Str ''1.1.10''],
         LogPrintf ''MAIN -> Reading configuration file...'' [],
         Unveil ''/usr/local/etc/hopm.conf'' ''r'',
         ConfigLoad ''/usr/local/etc/hopm.conf'',
         Unveil ''/var/log/scan.log'' ''wc'',
         ScanlogOpen ''/var/log/scan.log'',
         Unveil ''/var/run/hopm.pid'' ''wc'',
         Fopen ''/var/run/hopm.pid'' ''w'',
         Unveil ''/usr/local/bin/hopm'' ''x'',
         Pledge ''stdio inet dns exec'',
         Fprintf (''4711'' @ [CHR 0x0A]),
         Fclose,
         Sigaction SIGALRM, Sigaction SIGINT, Sigaction SIGHUP, Sigaction SIGUSR1,
         SignalIgnore SIGPIPE, Alarm 1],
      halted = None\<rparr>"
  by (simp add: example_debug_def example_debug_world_def example_build_def example_world_def
      startup_defs prim_defs decimal.simps)

lemma unlimited_no_interrupt: "no_interrupt unlimited_world"
  by (simp add: no_interrupt_def unlimited_world_def example_world_def)


lemmas loop_defs =
  main_cycle_def check_restart_def check_reopen_def check_alarmed_def restart_def exec_new_def
  reopen_def timers_def cloexec_all_def mark_cloexec_def stmt_def point_def

subsection \<open>Runs with an interrupt\<close>

text \<open>
  At a delivery point a running process goes on, or the interrupt handler ends it:
  this is decided by whether the schedule holds an interrupt request for that point.
\<close>

lemma arrivals_interrupt:
  assumes "halted s = None" and "Deliver SIGINT \<in> set as"
  shows "halted (block (map arrive as) s) = Some (Exited 0)
    \<and> (\<exists>evs. trace (block (map arrive as) s)
          = trace s @ evs @ [LogPrintf ''MAIN -> Caught SIGINT, bye!'' []]
        \<and> set evs \<subseteq> {Alarm 1})"
  using assms
proof (induction as arbitrary: s)
  case Nil
  then show ?case by simp
next
  case (Cons a as)
  show ?case
  proof (cases "a = Deliver SIGINT")
    case True
    have "halted (arrive a s) \<noteq> None"
      using True by (simp add: prim_defs)
    then have "block (map arrive as) (arrive a s) = arrive a s"
      by (rule block_halted)
    with Cons(2) True have eq: "block (map arrive (a # as)) s
        = halt (Exited 0) (emit (LogPrintf ''MAIN -> Caught SIGINT, bye!'' []) s)"
      by simp
    have "trace (block (map arrive (a # as)) s)
        = trace s @ [] @ [LogPrintf ''MAIN -> Caught SIGINT, bye!'' []] \<and> set [] \<subseteq> {Alarm 1}"
      unfolding eq by (simp add: prim_defs)
    then have "\<exists>evs. trace (block (map arrive (a # as)) s)
        = trace s @ evs @ [LogPrintf ''MAIN -> Caught SIGINT, bye!'' []] \<and> set evs \<subseteq> {Alarm 1}"
      by (rule exI)
    moreover have "halted (block (map arrive (a # as)) s) = Some (Exited 0)"
      unfolding eq by (simp add: prim_defs)
    ultimately show ?thesis by (intro conjI)
  next
    case False
    with Cons(3) have mem: "Deliver SIGINT \<in> set as" by simp
    have run: "halted (arrive a s) = None"
      using arrive_running [OF False] Cons(2) by simp
    obtain e1 where e1: "trace (arrive a s) = trace s @ e1" "set e1 \<subseteq> {Alarm 1}"
      using arrive_trace_quiet [OF False] by blast
    from Cons.IH [OF run mem] obtain e2 where
      h: "halted (block (map arrive as) (arrive a s)) = Some (Exited 0)"
      and e2: "trace (block (map arrive as) (arrive a s))
          = trace (arrive a s) @ e2 @ [LogPrintf ''MAIN -> Caught SIGINT, bye!'' []]"
        "set e2 \<subseteq> {Alarm 1}"
      by blast
    have eq: "block (map arrive (a # as)) s = block (map arrive as) (arrive a s)"
      using Cons(2) by simp
    have "trace (block (map arrive (a # as)) s)
        = trace s @ (e1 @ e2) @ [LogPrintf ''MAIN -> Caught SIGINT, bye!'' []]
        \<and> set (e1 @ e2) \<subseteq> {Alarm 1}"
      unfolding eq using e1 e2 by simp
    then have "\<exists>evs. trace (block (map arrive (a # as)) s)
        = trace s @ evs @ [LogPrintf ''MAIN -> Caught SIGINT, bye!'' []] \<and> set evs \<subseteq> {Alarm 1}"
      by (rule exI)
    with h eq show ?thesis by simp
  qed
qed

lemma point_interrupt:
  assumes "halted s = None" and "Deliver SIGINT \<in> set (sched w (clock s))"
  shows "halted (point w s) = Some (Exited 0)"
    and "\<exists>evs. trace (point w s) = trace s @ evs @ [LogPrintf ''MAIN -> Caught SIGINT, bye!'' []]
          \<and> set evs \<subseteq> {Alarm 1}"
  using arrivals_interrupt [of "s\<lparr>clock := Suc (clock s)\<rparr>" "sched w (clock s)"] assms
  by (simp_all add: point_def)

lemma point_calm:
  assumes "Deliver SIGINT \<notin> set (sched w (clock s))"
  shows "halted (point w s) = halted s"
    and "\<exists>evs. trace (point w s) = trace s @ evs \<and> set evs \<subseteq> {Alarm 1}"
  using arrivals_trace_quiet [OF assms, of "s\<lparr>clock := Suc (clock s)\<rparr>"]
    arrivals_running [OF assms, of "s\<lparr>clock := Suc (clock s)\<rparr>"]
  by (simp_all add: point_def)

lemma point_reached: "halted (point w s) = None \<Longrightarrow> halted s = None"
proof (rule ccontr)
  assume a: "halted (point w s) = None" and b: "halted s \<noteq> None"
  from b have "halted (s\<lparr>clock := Suc (clock s)\<rparr>) \<noteq> None" by simp
  then have "point w s = s\<lparr>clock := Suc (clock s)\<rparr>"
    unfolding point_def by (rule block_halted)
  with a b show False by simp
qed

lemma point_calm_filter:
  assumes "Deliver SIGINT \<notin> set (sched w (clock s))" and "\<not> P (Alarm 1)"
  shows "filter P (trace (point w s)) = filter P (trace s)"
proof -
  obtain evs where evs: "trace (point w s) = trace s @ evs" "set evs \<subseteq> {Alarm 1}"
    using point_calm(2) [OF assms(1)] by blast
  with assms(2) have "filter P evs = []" by (auto simp: filter_empty_conv)
  with evs show ?thesis by simp
qed

lemma point_interrupt_log:
  assumes "halted s = None" and "Deliver SIGINT \<in> set (sched w (clock s))"
  shows "filter is_log (trace (point w s))
     = filter is_log (trace s) @ [LogPrintf ''MAIN -> Caught SIGINT, bye!'' []]"
proof -
  obtain evs where evs:
    "trace (point w s) = trace s @ evs @ [LogPrintf ''MAIN -> Caught SIGINT, bye!'' []]"
    "set evs \<subseteq> {Alarm 1}"
    using point_interrupt(2) [OF assms] by blast
  then have "filter is_log evs = []" by (auto simp: filter_empty_conv)
  with evs show ?thesis by simp
qed

lemma point_interrupted:
  assumes "halted s = None" and "Deliver SIGINT \<in> set (sched w (clock s))"
  shows "interrupted (point w s)"
proof -
  obtain evs where evs:
    "trace (point w s) = trace s @ evs @ [LogPrintf ''MAIN -> Caught SIGINT, bye!'' []]"
    using point_interrupt(2) [OF assms] by blast
  with point_interrupt(1) [OF assms] show ?thesis
    by (simp add: interrupted_def)
qed

lemma point_cases:
  assumes "halted s = None"
  shows "halted (point w s) = None \<or> interrupted (point w s)"
  using point_interrupted [OF assms, of w] point_calm(1) [of w s] assms by auto

lemma stmt_cut:
  assumes "halted s = None" and "halted (point w s) \<noteq> None"
  shows "stmt w f s = point w s"
  using assms by (cases "halted (point w s)") (simp_all add: stmt_def)

lemma stmt_step:
  assumes "halted s = None"
  shows "interrupted (stmt w f s) \<or> (halted (point w s) = None \<and> stmt w f s = f (point w s))"
  using point_cases [OF assms, of w] assms
  by (auto simp: stmt_running interrupted_def)

lemma emit_fields:
  "halted (emit e s) = halted s" "clock (emit e s) = clock s" "ALARMED (emit e s) = ALARMED s"
  "trace (emit e s) = trace s @ [e]"
  by (simp_all add: emit_def)


subsection \<open>The restart branch under any schedule\<close>

lemma block_cut: "halted s = None \<Longrightarrow> halted (f s) \<noteq> None \<Longrightarrow> block (f # fs) s = f s"
  by (simp add: block_halted)

lemma stmt_mark_execv:
  "filter is_execv (trace (stmt w (mark_cloexec w i) s)) = filter is_execv (trace s)"
  by (cases "halted s"; cases "halted (point w s)")
    (simp_all add: stmt_def mark_cloexec_def prim_defs point_filter_execv Let_def)

lemma stmt_mark_cases:
  assumes "halted s = None \<or> interrupted s"
  shows "halted (stmt w (mark_cloexec w i) s) = None \<or> interrupted (stmt w (mark_cloexec w i) s)"
proof (cases "halted s = None")
  case True
  from stmt_step [OF True, of w "mark_cloexec w i"] show ?thesis
    by (auto simp: mark_running)
next
  case False
  then have "stmt w (mark_cloexec w i) s = s" by (rule stmt_halted)
  with assms show ?thesis by simp
qed

lemma not_le_counter: "\<not> (c :: 64 word) \<le> 0xFFFFFFFF \<Longrightarrow> 0x100000000 \<le> c"
  by (simp add: word_le_nat_alt)

lemma cloexec_all_outcome:
  assumes "halted s = None"
  shows "filter is_execv (trace (cloexec_all w c s)) = filter is_execv (trace s)"
    and "interrupted (cloexec_all w c s)
      \<or> halted (cloexec_all w c s) = (if c \<le> 0xFFFFFFFF then None else Some Spinning)"
proof -
  define P where "P = (\<lambda>t. (halted t = None \<or> interrupted t)
      \<and> filter is_execv (trace t) = filter is_execv (trace s))"
  have step: "preserves P (stmt w (mark_cloexec w i))" for i
    unfolding preserves_def P_def
    using stmt_mark_cases [of _ w i] by (simp add: stmt_mark_execv)
  have P: "P s"
    using assms by (simp add: P_def)
  have "filter is_execv (trace (cloexec_all w c s)) = filter is_execv (trace s)
    \<and> (interrupted (cloexec_all w c s)
      \<or> halted (cloexec_all w c s) = (if c \<le> 0xFFFFFFFF then None else Some Spinning))"
  proof (cases "cloexec_loop w c 0 s")
    case None
    have "\<not> c \<le> 0xFFFFFFFF"
      using cloexec_loop_terminates [of c w 0 s] None by auto
    with None show ?thesis
      by (simp add: cloexec_all_def halt_def)
  next
    case (Some s')
    from cloexec_loop_preserves [OF Some step P]
    have P': "halted s' = None \<or> interrupted s'"
      "filter is_execv (trace s') = filter is_execv (trace s)"
      by (simp_all add: P_def)
    have all: "cloexec_all w c s = s'"
      by (simp add: cloexec_all_def Some)
    show ?thesis
    proof (cases "c \<le> 0xFFFFFFFF")
      case True
      with P' all show ?thesis by auto
    next
      case False
      from cloexec_loop_large [OF Some not_le_counter [OF False]] P'(1)
      have "interrupted s'" by auto
      with P'(2) all show ?thesis by simp
    qed
  qed
  then show "filter is_execv (trace (cloexec_all w c s)) = filter is_execv (trace s)"
    and "interrupted (cloexec_all w c s)
      \<or> halted (cloexec_all w c s) = (if c \<le> 0xFFFFFFFF then None else Some Spinning)"
    by simp_all
qed

lemma exec_new_outcome:
  assumes run: "halted s = None"
  shows "interrupted (exec_new b w s)
    \<or> (halted (exec_new b w s) = Some (if execv_ok w then Replaced else Exited 0)
       \<and> filter is_execv (trace (exec_new b w s))
           = filter is_execv (trace s) @ [Execv (HOPM_BINPATH b) (argv w)])"
proof -
  define S1 where "S1 = stmt w (emit (Execv (HOPM_BINPATH b) (argv w)))"
  define L where "L = stmt w (\<lambda>s. emit (LogPrintf execv_failed_fmt
                   [Str (HOPM_BINPATH b), StrError (errno s)]) s)"
  define F2 where "F2 = (\<lambda>s. if execv_ok w then halt Replaced s
             else block [set_errno (failure_errno w ''execv''), L] s)"
  define S3 where "S3 = stmt w (halt (Exited 0))"
  have def: "exec_new b w s = block [S1, F2, S3] s"
    by (simp only: exec_new_def S1_def F2_def S3_def L_def)
  from stmt_step [OF run, of w "emit (Execv (HOPM_BINPATH b) (argv w))"]
  show ?thesis
  proof
    assume i: "interrupted (stmt w (emit (Execv (HOPM_BINPATH b) (argv w))) s)"
    then have "halted (S1 s) \<noteq> None" by (simp add: S1_def interrupted_def)
    from block_cut [of s S1 "[F2, S3]", OF run this] i show ?thesis
      by (simp add: def S1_def)
  next
    assume r: "halted (point w s) = None
      \<and> stmt w (emit (Execv (HOPM_BINPATH b) (argv w))) s
          = emit (Execv (HOPM_BINPATH b) (argv w)) (point w s)"
    define s1 where "s1 = emit (Execv (HOPM_BINPATH b) (argv w)) (point w s)"
    have s1: "S1 s = s1" "halted s1 = None"
      "filter is_execv (trace s1) = filter is_execv (trace s) @ [Execv (HOPM_BINPATH b) (argv w)]"
      using r by (simp_all add: S1_def s1_def emit_def point_filter_execv)
    have eq1: "exec_new b w s = block [S3] (F2 s1)"
      using run s1(1,2) by (simp add: def)
    show ?thesis
    proof (cases "execv_ok w")
      case True
      then have "F2 s1 = halt Replaced s1" by (simp add: F2_def)
      then have "exec_new b w s = halt Replaced s1"
        using eq1 by (simp add: halt_def)
      with True s1(3) show ?thesis by (simp add: halt_def)
    next
      case False
      define s1' where "s1' = set_errno (failure_errno w ''execv'') s1"
      have s1': "halted s1' = None" "filter is_execv (trace s1') = filter is_execv (trace s1)"
        using s1(2) by (simp_all add: s1'_def set_errno_def)
      from False have f2: "F2 s1 = L s1'"
        using s1(2) s1'(1) by (simp add: F2_def s1'_def [symmetric])
      from stmt_step [OF s1'(1), of w "\<lambda>s. emit (LogPrintf execv_failed_fmt
                   [Str (HOPM_BINPATH b), StrError (errno s)]) s"]
      show ?thesis
      proof
        assume i: "interrupted (stmt w (\<lambda>s. emit (LogPrintf execv_failed_fmt
                   [Str (HOPM_BINPATH b), StrError (errno s)]) s) s1')"
        then have i': "interrupted (F2 s1)" by (simp add: f2 L_def)
        then have "halted (F2 s1) \<noteq> None" by (simp add: interrupted_def)
        then have "block [S3] (F2 s1) = F2 s1" by (rule block_halted)
        with eq1 i' show ?thesis by simp
      next
        assume r2: "halted (point w s1') = None
          \<and> stmt w (\<lambda>s. emit (LogPrintf execv_failed_fmt
                   [Str (HOPM_BINPATH b), StrError (errno s)]) s) s1'
            = emit (LogPrintf execv_failed_fmt
                   [Str (HOPM_BINPATH b), StrError (errno (point w s1'))]) (point w s1')"
        define s2 where "s2 = F2 s1"
        have s2: "halted s2 = None" "filter is_execv (trace s2) = filter is_execv (trace s1)"
          using r2 s1'(2) by (simp_all add: s2_def f2 L_def emit_def point_filter_execv)
        have eq2: "exec_new b w s = S3 s2"
          using eq1 s2(1) by (simp add: s2_def)
        from stmt_step [OF s2(1), of w "halt (Exited 0)"]
        show ?thesis
        proof
          assume "interrupted (stmt w (halt (Exited 0)) s2)"
          then show ?thesis by (simp add: eq2 S3_def)
        next
          assume "halted (point w s2) = None
            \<and> stmt w (halt (Exited 0)) s2 = halt (Exited 0) (point w s2)"
          then have "exec_new b w s = halt (Exited 0) (point w s2)"
            by (simp add: eq2 S3_def)
          with False s2(2) s1(3) show ?thesis
            by (simp add: halt_def point_filter_execv)
        qed
      qed
    qed
  qed
qed

lemma restart_outcome:
  assumes run: "halted s = None"
  shows "interrupted (restart b w s)
    \<or> (if OPT_DEBUG s \<noteq> 0
        then halted (restart b w s) = Some (Exited 1)
          \<and> filter is_execv (trace (restart b w s)) = filter is_execv (trace s)
        else case rlimit_nofile w of
            None \<Rightarrow> halted (restart b w s) = Some (Exited 1)
              \<and> filter is_execv (trace (restart b w s)) = filter is_execv (trace s)
          | Some c \<Rightarrow>
              if c \<le> 0xFFFFFFFF
              then halted (restart b w s) = Some (if execv_ok w then Replaced else Exited 0)
                \<and> filter is_execv (trace (restart b w s))
                    = filter is_execv (trace s) @ [Execv (HOPM_BINPATH b) (argv w)]
              else halted (restart b w s) = Some Spinning
                \<and> filter is_execv (trace (restart b w s)) = filter is_execv (trace s))"
proof (cases "OPT_DEBUG s \<noteq> 0")
  case True
  from restart_debug [OF run True, of b w] point_cases [OF run, of w] True
  show ?thesis
    by (auto simp: halt_def point_filter_execv)
next
  case False
  then have dbg: "OPT_DEBUG s = 0" by simp
  define D where "D = stmt w (\<lambda>s. if OPT_DEBUG s \<noteq> 0 then halt (Exited 1) s else s)"
  define L1 where "L1 = stmt w (emit (LogPrintf ''MAIN -> Restarting process'' []))"
  define Q where "Q = stmt w (emit GetrlimitNofile)"
  define G where "G = stmt w (\<lambda>s. emit (LogPrintf
                 ''MAIN RESTART -> getrlimit() error retrieving RLIMIT_NOFILE (%s)''
                 [StrError (errno s)]) s)"
  define H where "H = stmt w (halt (Exited 1))"
  define C where "C = (\<lambda>s. case rlimit_nofile w of
           None \<Rightarrow> block [set_errno (failure_errno w ''getrlimit''), G, H] s
         | Some rlim_cur \<Rightarrow> block [cloexec_all w rlim_cur, exec_new b w] s)"
  have def: "restart b w s = block [D, L1, Q, C] s"
    by (simp only: restart_def D_def L1_def Q_def C_def G_def H_def)
  have cut: "interrupted (f t) \<Longrightarrow> halted t = None \<Longrightarrow> block (f # fs) t = f t" for f t fs
    by (rule block_cut) (simp_all add: interrupted_def)
  from stmt_step [OF run, of w "\<lambda>s. if OPT_DEBUG s \<noteq> 0 then halt (Exited 1) s else s"]
  show ?thesis
  proof
    assume i: "interrupted (stmt w (\<lambda>s. if OPT_DEBUG s \<noteq> 0 then halt (Exited 1) s else s) s)"
    then have "interrupted (D s)" by (simp add: D_def)
    from cut [of D s, OF this run] this show ?thesis by (simp add: def)
  next
    assume r: "halted (point w s) = None
      \<and> stmt w (\<lambda>s. if OPT_DEBUG s \<noteq> 0 then halt (Exited 1) s else s) s
          = (if OPT_DEBUG (point w s) \<noteq> 0 then halt (Exited 1) (point w s) else point w s)"
    define s1 where "s1 = point w s"
    have s1: "D s = s1" "halted s1 = None" "filter is_execv (trace s1) = filter is_execv (trace s)"
      using r dbg by (simp_all add: D_def s1_def point_frame point_filter_execv)
    have eq1: "restart b w s = block [L1, Q, C] s1"
      using run s1(1) by (simp add: def)
    from stmt_step [OF s1(2), of w "emit (LogPrintf ''MAIN -> Restarting process'' [])"]
    show ?thesis
    proof
      assume "interrupted (stmt w (emit (LogPrintf ''MAIN -> Restarting process'' [])) s1)"
      then have "interrupted (L1 s1)" by (simp add: L1_def)
      from cut [of L1 s1, OF this s1(2)] this show ?thesis by (simp add: eq1)
    next
      assume r: "halted (point w s1) = None
        \<and> stmt w (emit (LogPrintf ''MAIN -> Restarting process'' [])) s1
            = emit (LogPrintf ''MAIN -> Restarting process'' []) (point w s1)"
      define s2 where "s2 = L1 s1"
      have s2: "halted s2 = None" "filter is_execv (trace s2) = filter is_execv (trace s)"
        using r s1(3) by (simp_all add: L1_def s2_def emit_def point_filter_execv)
      have eq2: "restart b w s = block [Q, C] s2"
        using s1(2) by (simp add: eq1 s2_def)
      from stmt_step [OF s2(1), of w "emit GetrlimitNofile"]
      show ?thesis
      proof
        assume "interrupted (stmt w (emit GetrlimitNofile) s2)"
        then have "interrupted (Q s2)" by (simp add: Q_def)
        from cut [of Q s2, OF this s2(1)] this show ?thesis by (simp add: eq2)
      next
        assume r: "halted (point w s2) = None
          \<and> stmt w (emit GetrlimitNofile) s2 = emit GetrlimitNofile (point w s2)"
        define s3 where "s3 = Q s2"
        have s3: "halted s3 = None" "filter is_execv (trace s3) = filter is_execv (trace s)"
          using r s2(2) by (simp_all add: Q_def s3_def emit_def point_filter_execv)
        have eq3: "restart b w s = C s3"
          using s2(1) s3(1) by (simp add: eq2 s3_def)
        show ?thesis
        proof (cases "rlimit_nofile w")
          case None
          define s4 where "s4 = set_errno (failure_errno w ''getrlimit'') s3"
          have s4: "halted s4 = None" "filter is_execv (trace s4) = filter is_execv (trace s)"
            using s3 by (simp_all add: s4_def set_errno_def)
          have eq4: "restart b w s = block [G, H] s4"
            using None s3(1) by (simp add: eq3 C_def s4_def)
          from stmt_step [OF s4(1), of w "\<lambda>s. emit (LogPrintf
                 ''MAIN RESTART -> getrlimit() error retrieving RLIMIT_NOFILE (%s)''
                 [StrError (errno s)]) s"]
          show ?thesis
          proof
            assume "interrupted (stmt w (\<lambda>s. emit (LogPrintf
                 ''MAIN RESTART -> getrlimit() error retrieving RLIMIT_NOFILE (%s)''
                 [StrError (errno s)]) s) s4)"
            then have "interrupted (G s4)" by (simp add: G_def)
            from cut [of G s4, OF this s4(1)] this show ?thesis by (simp add: eq4)
          next
            assume r: "halted (point w s4) = None
              \<and> stmt w (\<lambda>s. emit (LogPrintf
                 ''MAIN RESTART -> getrlimit() error retrieving RLIMIT_NOFILE (%s)''
                 [StrError (errno s)]) s) s4
                = emit (LogPrintf
                 ''MAIN RESTART -> getrlimit() error retrieving RLIMIT_NOFILE (%s)''
                 [StrError (errno (point w s4))]) (point w s4)"
            define s5 where "s5 = G s4"
            have s5: "halted s5 = None" "filter is_execv (trace s5) = filter is_execv (trace s)"
              using r s4(2) by (simp_all add: G_def s5_def emit_def point_filter_execv)
            have eq5: "restart b w s = H s5"
              using s4(1) s5(1) by (simp add: eq4 s5_def)
            from stmt_step [OF s5(1), of w "halt (Exited 1)"]
            show ?thesis
            proof
              assume "interrupted (stmt w (halt (Exited 1)) s5)"
              then show ?thesis by (simp add: eq5 H_def)
            next
              assume "halted (point w s5) = None
                \<and> stmt w (halt (Exited 1)) s5 = halt (Exited 1) (point w s5)"
              then have "restart b w s = halt (Exited 1) (point w s5)"
                by (simp add: eq5 H_def)
              with None dbg s5(2) show ?thesis
                by (simp add: halt_def point_filter_execv)
            qed
          qed
        next
          case (Some c)
          define s4 where "s4 = cloexec_all w c s3"
          note A = cloexec_all_outcome [OF s3(1), of w c]
          have tr4: "filter is_execv (trace s4) = filter is_execv (trace s)"
            using A(1) s3(2) by (simp add: s4_def)
          have eq4: "restart b w s = block [exec_new b w] s4"
            using Some s3(1) by (simp add: eq3 C_def s4_def)
          show ?thesis
          proof (cases "halted s4 = None")
            case True
            with A(2) have fits: "c \<le> 0xFFFFFFFF"
              by (cases "c \<le> 0xFFFFFFFF") (simp_all add: s4_def interrupted_def)
            from True have "restart b w s = exec_new b w s4"
              by (simp add: eq4)
            with exec_new_outcome [OF True, of b w] Some dbg fits tr4 show ?thesis
              by auto
          next
            case False
            then have eq5: "restart b w s = s4"
              unfolding eq4 by (rule block_halted)
            from A(2) show ?thesis
            proof
              assume "interrupted (cloexec_all w c s3)"
              then show ?thesis by (simp add: eq5 s4_def)
            next
              assume h: "halted (cloexec_all w c s3)
                  = (if c \<le> 0xFFFFFFFF then None else Some Spinning)"
              with False have large: "\<not> c \<le> 0xFFFFFFFF"
                by (cases "c \<le> 0xFFFFFFFF") (simp_all add: s4_def)
              with h have "halted s4 = Some Spinning" by (simp add: s4_def)
              with Some dbg large tr4 eq5 show ?thesis by simp
            qed
          qed
        qed
      qed
    qed
  qed
qed

lemma new_events_filter:
  assumes "trace s' = trace s @ evs" and "filter P (trace s') = filter P (trace s) @ xs"
  shows "filter P (new_events s s') = xs"
  using assms by (simp add: new_events_append)

lemma check_restart_outcome:
  assumes run: "halted s = None" and flag: "RESTART (point w s) \<noteq> 0"
  shows "interrupted (check_restart b w s)
    \<or> (if OPT_DEBUG s \<noteq> 0
        then halted (check_restart b w s) = Some (Exited 1)
          \<and> filter is_execv (new_events s (check_restart b w s)) = []
        else case rlimit_nofile w of
            None \<Rightarrow> halted (check_restart b w s) = Some (Exited 1)
              \<and> filter is_execv (new_events s (check_restart b w s)) = []
          | Some c \<Rightarrow>
              if c \<le> 0xFFFFFFFF
              then halted (check_restart b w s) = Some (if execv_ok w then Replaced else Exited 0)
                \<and> filter is_execv (new_events s (check_restart b w s))
                    = [Execv (HOPM_BINPATH b) (argv w)]
              else halted (check_restart b w s) = Some Spinning
                \<and> filter is_execv (new_events s (check_restart b w s)) = [])"
proof (cases "halted (point w s) = None")
  case False
  with run have "check_restart b w s = point w s"
    unfolding check_restart_def by (rule stmt_cut)
  with point_cases [OF run, of w] False show ?thesis by simp
next
  case True
  have eq: "check_restart b w s = restart b w (point w s)"
    using check_restart_taken [OF run True, of b] flag by simp
  obtain evs where evs: "trace (check_restart b w s) = trace s @ evs"
    using addsD [OF adds_check_restart] by blast
  note N = new_events_filter [OF evs, of is_execv]
  have fr: "OPT_DEBUG (point w s) = OPT_DEBUG s"
    "filter is_execv (trace (point w s)) = filter is_execv (trace s)"
    by (simp_all add: point_frame point_filter_execv)
  from restart_outcome [OF True, of b w]
  show ?thesis
  proof
    assume "interrupted (restart b w (point w s))"
    then show ?thesis by (simp add: eq)
  next
    assume T: "if OPT_DEBUG (point w s) \<noteq> 0
        then halted (restart b w (point w s)) = Some (Exited 1)
          \<and> filter is_execv (trace (restart b w (point w s)))
              = filter is_execv (trace (point w s))
        else case rlimit_nofile w of
            None \<Rightarrow> halted (restart b w (point w s)) = Some (Exited 1)
              \<and> filter is_execv (trace (restart b w (point w s)))
                  = filter is_execv (trace (point w s))
          | Some c \<Rightarrow>
              if c \<le> 0xFFFFFFFF
              then halted (restart b w (point w s))
                    = Some (if execv_ok w then Replaced else Exited 0)
                \<and> filter is_execv (trace (restart b w (point w s)))
                    = filter is_execv (trace (point w s)) @ [Execv (HOPM_BINPATH b) (argv w)]
              else halted (restart b w (point w s)) = Some Spinning
                \<and> filter is_execv (trace (restart b w (point w s)))
                    = filter is_execv (trace (point w s))"
    have "if OPT_DEBUG s \<noteq> 0
        then halted (check_restart b w s) = Some (Exited 1)
          \<and> filter is_execv (new_events s (check_restart b w s)) = []
        else case rlimit_nofile w of
            None \<Rightarrow> halted (check_restart b w s) = Some (Exited 1)
              \<and> filter is_execv (new_events s (check_restart b w s)) = []
          | Some c \<Rightarrow>
              if c \<le> 0xFFFFFFFF
              then halted (check_restart b w s) = Some (if execv_ok w then Replaced else Exited 0)
                \<and> filter is_execv (new_events s (check_restart b w s))
                    = [Execv (HOPM_BINPATH b) (argv w)]
              else halted (check_restart b w s) = Some Spinning
                \<and> filter is_execv (new_events s (check_restart b w s)) = []"
    proof (cases "OPT_DEBUG s \<noteq> 0")
      case True
      with T fr eq N [of "[]"] show ?thesis by simp
    next
      case dbg: False
      show ?thesis
      proof (cases "rlimit_nofile w")
        case None
        with T fr eq dbg N [of "[]"] show ?thesis by simp
      next
        case (Some c)
        show ?thesis
        proof (cases "c \<le> 0xFFFFFFFF")
          case True
          with T fr eq dbg Some N [of "[Execv (HOPM_BINPATH b) (argv w)]"]
          show ?thesis by simp
        next
          case False
          with T fr eq dbg Some N [of "[]"] show ?thesis by simp
        qed
      qed
    qed
    then show ?thesis by (rule disjI2)
  qed
qed

subsection \<open>The pid file, whatever the three calls return\<close>

lemma startup_pidfile_outcome:
  assumes run: "halted s = None"
  shows "halted (startup_pidfile b w s)
      = (if unveil_ok w (HOPM_BINPATH b) ''x'' \<and> pledge_ok w ''stdio inet dns exec''
            \<and> fopen_ok w
         then None else Some (Exited 1))"
    and "trace (startup_pidfile b w s)
      = trace s @ [Fopen (pidfile s) ''w'', Unveil (HOPM_BINPATH b) ''x'']
        @ (if \<not> unveil_ok w (HOPM_BINPATH b) ''x''
           then [Err ''unveil'' (failure_errno w ''unveil'')]
           else Pledge ''stdio inet dns exec''
             # (if \<not> pledge_ok w ''stdio inet dns exec''
                then [Err ''pledge'' (failure_errno w ''pledge'')]
                else if fopen_ok w
                then [Fprintf (decimal (getpid w mod 2 ^ 32) @ [CHR 0x0A]), Fclose,
                      Sigaction SIGALRM, Sigaction SIGINT, Sigaction SIGHUP, Sigaction SIGUSR1,
                      SignalIgnore SIGPIPE, Alarm 1]
                else [LogPrintf ''MAIN -> Error opening pid file %s: %s''
                        [Str (pidfile s), StrError (failure_errno w ''fopen'')]]))"
proof -
  show "halted (startup_pidfile b w s)
      = (if unveil_ok w (HOPM_BINPATH b) ''x'' \<and> pledge_ok w ''stdio inet dns exec''
            \<and> fopen_ok w
         then None else Some (Exited 1))"
    using run
    by (cases "unveil_ok w (HOPM_BINPATH b) ''x''"; cases "pledge_ok w ''stdio inet dns exec''";
        cases "fopen_ok w")
      (simp_all add: startup_pidfile_def fopen_pidfile_def unveil_or_err_def pledge_or_err_def
        write_pid_def install_handlers_def err_def prim_defs Let_def EXIT_FAILURE_def)
  show "trace (startup_pidfile b w s)
      = trace s @ [Fopen (pidfile s) ''w'', Unveil (HOPM_BINPATH b) ''x'']
        @ (if \<not> unveil_ok w (HOPM_BINPATH b) ''x''
           then [Err ''unveil'' (failure_errno w ''unveil'')]
           else Pledge ''stdio inet dns exec''
             # (if \<not> pledge_ok w ''stdio inet dns exec''
                then [Err ''pledge'' (failure_errno w ''pledge'')]
                else if fopen_ok w
                then [Fprintf (decimal (getpid w mod 2 ^ 32) @ [CHR 0x0A]), Fclose,
                      Sigaction SIGALRM, Sigaction SIGINT, Sigaction SIGHUP, Sigaction SIGUSR1,
                      SignalIgnore SIGPIPE, Alarm 1]
                else [LogPrintf ''MAIN -> Error opening pid file %s: %s''
                        [Str (pidfile s), StrError (failure_errno w ''fopen'')]]))"
    using run
    by (cases "unveil_ok w (HOPM_BINPATH b) ''x''"; cases "pledge_ok w ''stdio inet dns exec''";
        cases "fopen_ok w")
      (simp_all add: startup_pidfile_def fopen_pidfile_def unveil_or_err_def pledge_or_err_def
        write_pid_def install_handlers_def err_def prim_defs Let_def EXIT_FAILURE_def)
qed


section \<open>The claims\<close>

subsection \<open>Option parsing\<close>

text \<open>
  Claim C10. An option character returned by \<^verbatim>\<open>getopt\<close> that is neither \<^verbatim>\<open>c\<close> nor \<^verbatim>\<open>d\<close>
  (for an unrecognised option \<^verbatim>\<open>getopt\<close> returns \<^verbatim>\<open>?\<close>) falls into the \<^verbatim>\<open>default\<close> case
  of the switch: the loop goes on with the options after it, and the run is the one
  the same command line has without that option. In particular the configuration name
  and the debug level are the same, the process has not ended and main has made no
  call of its own.
\<close>

theorem getopt_loop_ignores_unknown:
  assumes "c \<noteq> - 1" and "c \<noteq> of_char CHR ''c''" and "c \<noteq> of_char CHR ''d''"
  shows "getopt_loop (pre @ (c, optarg) # post) s = getopt_loop (pre @ post) s
    \<and> halted (getopt_loop (pre @ (c, optarg) # post) s) = halted s
    \<and> trace (getopt_loop (pre @ (c, optarg) # post) s) = trace s"
proof -
  have "getopt_loop (pre @ (c, optarg) # post) s = getopt_loop (pre @ post) s"
    using assms by (induction pre s rule: getopt_loop.induct) auto
  then show ?thesis
    by (simp add: getopt_loop_frame)
qed

theorem getopt_loop_ignores_unknown_witness:
  "(63 :: int) \<noteq> - 1 \<and> (63 :: int) \<noteq> of_char CHR ''c'' \<and> (63 :: int) \<noteq> of_char CHR ''d''
   \<and> getopt_loop ([(of_char CHR ''d'', [])] @ (63, []) # [(of_char CHR ''c'', ''x'')])
        (initial example_build)
      = getopt_loop ([(of_char CHR ''d'', [])] @ [(of_char CHR ''c'', ''x'')])
          (initial example_build)
   \<and> OPT_DEBUG (getopt_loop ([(of_char CHR ''d'', [])] @ (63, []) # [(of_char CHR ''c'', ''x'')])
        (initial example_build)) = 1
   \<and> CONFNAME (getopt_loop ([(of_char CHR ''d'', [])] @ (63, []) # [(of_char CHR ''c'', ''x'')])
        (initial example_build)) = ''x''"
  using getopt_loop_ignores_unknown
    [of 63 "[(of_char CHR ''d'', [])]" "[]" "[(of_char CHR ''c'', ''x'')]"
      "initial example_build"]
  by (simp add: initial_def)

subsection \<open>The main loop\<close>

text \<open>
  Claim C3. In the events one iteration of the loop adds to the trace, the two
  progress calls come first, then what restart handling does, then what log rotation
  does, then the timers: the parts are numbered 1 to 4 and the numbers never decrease
  along the trace. When the test of the restart flag is reached and finds the flag
  set, the iteration ends the process (or never leaves the branch), and the
  iteration contains no event of log rotation and no timer call, whatever other
  requests are pending.
\<close>

theorem restart_before_rotation_before_timers:
  "sorted (phases (new_events s (main_cycle b w s)))
   \<and> (let s2 = block [stmt w (emit IrcCycle), stmt w (emit ScanCycle), point w] s in
        halted s2 = None \<and> RESTART s2 \<noteq> 0 \<longrightarrow>
          halted (main_cycle b w s) \<noteq> None
          \<and> set (phases (new_events s (main_cycle b w s))) \<subseteq> {1, 2})"
proof -
  obtain e1 e2 e3 e4 e5 where parts:
    "trace (block [stmt w (emit IrcCycle), stmt w (emit ScanCycle)] s) = trace s @ e1 @ e2"
    "trace (block [stmt w (emit IrcCycle), stmt w (emit ScanCycle), check_restart b w] s)
       = trace s @ e1 @ e2 @ e3"
    "trace (main_cycle b w s) = trace s @ e1 @ e2 @ e3 @ e4 @ e5"
    and ph: "set (phases e1) \<subseteq> {1}" "set (phases e2) \<subseteq> {1}" "set (phases e3) \<subseteq> {2}"
    "set (phases e4) \<subseteq> {3}" "set (phases e5) \<subseteq> {4}"
    by (rule main_cycle_parts)
  have new: "new_events s (main_cycle b w s) = e1 @ e2 @ e3 @ e4 @ e5"
    using parts(3) by (rule new_events_append)
  have "sorted (phases e1 @ phases e2 @ phases e3 @ phases e4 @ phases e5)"
    using ph by (fastforce simp: sorted_append sorted_const)
  then have order: "sorted (phases (new_events s (main_cycle b w s)))"
    by (simp add: new phases_append)
  define t2 where "t2 = block [stmt w (emit IrcCycle), stmt w (emit ScanCycle)] s"
  define s2 where "s2 = block [stmt w (emit IrcCycle), stmt w (emit ScanCycle), point w] s"
  have s2: "s2 = block [point w] t2"
    unfolding s2_def t2_def by (simp only: block3 block2)
  have dropped: "halted (main_cycle b w s) \<noteq> None
      \<and> set (phases (new_events s (main_cycle b w s))) \<subseteq> {1, 2}"
    if run: "halted s2 = None" and flag: "RESTART s2 \<noteq> 0"
  proof -
    from run s2 have t2_run: "halted t2 = None"
      by (cases "halted t2 = None") (simp_all add: block_halted)
    with s2 have s2_eq: "s2 = point w t2" by simp
    define t3 where "t3 = check_restart b w t2"
    have "t3 = restart b w s2"
      unfolding t3_def using check_restart_taken [OF t2_run, of w b] run flag s2_eq by simp
    then have t3_halted: "halted t3 \<noteq> None"
      by (simp add: restart_halts)
    have t3_block: "block [check_restart b w] t2 = t3"
      using t2_run by (simp add: t3_def)
    have "main_cycle b w s = block [check_reopen w, check_alarmed w] (block [check_restart b w] t2)"
      unfolding main_cycle_def t2_def by (simp only: block5 block2)
    also have "\<dots> = t3"
      unfolding t3_block using t3_halted by (rule block_halted)
    finally have whole: "main_cycle b w s = t3" .
    have "block [stmt w (emit IrcCycle), stmt w (emit ScanCycle), check_restart b w] s
            = block [check_restart b w] t2"
      unfolding t2_def by (simp only: block3 block2)
    then have "block [stmt w (emit IrcCycle), stmt w (emit ScanCycle), check_restart b w] s = t3"
      using t3_block by simp
    with parts(2) whole have "trace (main_cycle b w s) = trace s @ e1 @ e2 @ e3" by simp
    then have "new_events s (main_cycle b w s) = e1 @ e2 @ e3"
      by (rule new_events_append)
    with ph(1-3) have "set (phases (new_events s (main_cycle b w s))) \<subseteq> {1, 2}"
      by (auto simp: phases_append)
    with whole t3_halted show ?thesis by simp
  qed
  from order dropped show ?thesis
    unfolding Let_def s2_def by blast
qed

theorem restart_before_rotation_before_timers_witness:
  "halted (block [stmt example_world (emit IrcCycle), stmt example_world (emit ScanCycle),
       point example_world] example_pending) = None
   \<and> RESTART (block [stmt example_world (emit IrcCycle), stmt example_world (emit ScanCycle),
       point example_world] example_pending) \<noteq> 0
   \<and> sorted (phases (new_events example_pending
         (main_cycle example_build example_world example_pending)))
   \<and> halted (main_cycle example_build example_world example_pending) \<noteq> None
   \<and> set (phases (new_events example_pending
         (main_cycle example_build example_world example_pending))) \<subseteq> {1, 2}"
proof -
  have "halted (block [stmt example_world (emit IrcCycle), stmt example_world (emit ScanCycle),
       point example_world] example_pending) = None
   \<and> RESTART (block [stmt example_world (emit IrcCycle), stmt example_world (emit ScanCycle),
       point example_world] example_pending) \<noteq> 0"
    by (simp add: example_pending_def example_proc_value stmt_def point_def example_world_def
        prim_defs)
  with restart_before_rotation_before_timers
    [where s = example_pending and b = example_build and w = example_world]
  show ?thesis by (simp add: Let_def)
qed

text \<open>
  Claim C9, as the code has it. No statement of \<^verbatim>\<open>main.c\<close> clears the restart flag: a
  handled signal, a call of \<^verbatim>\<open>main_restart\<close>, a delivery point, an iteration and any
  number of iterations leave a set flag set. When the test of the flag is reached and
  finds it set, the branch never comes back to the loop: the rest of the iteration and
  every later iteration add nothing to the trace but events of restart handling, so no
  progress call, no rotation and no timer call follows. The branch then ends in one of
  these ways. The interrupt handler ends the process with status 0 at one of the
  delivery points of the branch. Otherwise, with a debug level that is not zero, the
  process ends with status 1 and \<^verbatim>\<open>execv\<close> has not been called; with a failed ceiling
  query it ends with status 1 and \<^verbatim>\<open>execv\<close> has not been called; with a ceiling the
  counter of the marking loop can reach, \<^verbatim>\<open>execv\<close> is called once, and the process is
  replaced or, when the call fails, ends by the \<^verbatim>\<open>exit\<close> of line 287; with a ceiling
  beyond the counter the marking loop is never left.
\<close>

theorem restart_flag_is_final:
  "(RESTART s \<noteq> 0 \<longrightarrow>
      RESTART (arrive a s) \<noteq> 0 \<and> RESTART (point w s) \<noteq> 0
      \<and> RESTART (main_cycle b w s) \<noteq> 0 \<and> RESTART (main_loop n b w s) \<noteq> 0)
   \<and> (halted s = None \<and> RESTART (point w s) \<noteq> 0 \<longrightarrow>
        halted (check_restart b w s) \<noteq> None
        \<and> set (phases (new_events s
             (block [check_restart b w, check_reopen w, check_alarmed w, main_loop n b w] s)))
           \<subseteq> {2}
        \<and> (interrupted (check_restart b w s)
           \<or> (if OPT_DEBUG s \<noteq> 0
               then halted (check_restart b w s) = Some (Exited 1)
                 \<and> filter is_execv (new_events s (check_restart b w s)) = []
               else case rlimit_nofile w of
                   None \<Rightarrow> halted (check_restart b w s) = Some (Exited 1)
                     \<and> filter is_execv (new_events s (check_restart b w s)) = []
                 | Some c \<Rightarrow>
                     if c \<le> 0xFFFFFFFF
                     then halted (check_restart b w s)
                           = Some (if execv_ok w then Replaced else Exited 0)
                       \<and> filter is_execv (new_events s (check_restart b w s))
                           = [Execv (HOPM_BINPATH b) (argv w)]
                     else halted (check_restart b w s) = Some Spinning
                       \<and> filter is_execv (new_events s (check_restart b w s)) = [])))"
proof (intro conjI impI)
  assume "RESTART s \<noteq> 0"
  then show "RESTART (arrive a s) \<noteq> 0" "RESTART (point w s) \<noteq> 0"
    "RESTART (main_cycle b w s) \<noteq> 0" "RESTART (main_loop n b w s) \<noteq> 0"
    using preservesD [OF preserves_RESTART_arrive] preservesD [OF preserves_RESTART_point]
      preservesD [OF preserves_RESTART_main_cycle] preservesD [OF preserves_RESTART_main_loop]
    by blast+
next
  assume obs: "halted s = None \<and> RESTART (point w s) \<noteq> 0"
  then show ended: "halted (check_restart b w s) \<noteq> None"
    by (intro check_restart_observed) simp_all
  obtain evs where evs: "trace (check_restart b w s) = trace s @ evs"
    "set evs \<subseteq> {e. phase e = 2} \<union> handler_events"
    using addsD [OF adds_check_restart] by blast
  have "block [check_restart b w, check_reopen w, check_alarmed w, main_loop n b w] s
          = block [check_reopen w, check_alarmed w, main_loop n b w] (check_restart b w s)"
    using obs by simp
  also have "\<dots> = check_restart b w s"
    using ended by (rule block_halted)
  finally have "new_events s
      (block [check_restart b w, check_reopen w, check_alarmed w, main_loop n b w] s) = evs"
    using evs(1) by (simp add: new_events_append)
  with phases_subset [OF evs(2)]
  show "set (phases (new_events s
      (block [check_restart b w, check_reopen w, check_alarmed w, main_loop n b w] s))) \<subseteq> {2}"
    by simp
next
  assume obs: "halted s = None \<and> RESTART (point w s) \<noteq> 0"
  then have "halted s = None" and "RESTART (point w s) \<noteq> 0"
    by simp_all
  then show "interrupted (check_restart b w s)
           \<or> (if OPT_DEBUG s \<noteq> 0
               then halted (check_restart b w s) = Some (Exited 1)
                 \<and> filter is_execv (new_events s (check_restart b w s)) = []
               else case rlimit_nofile w of
                   None \<Rightarrow> halted (check_restart b w s) = Some (Exited 1)
                     \<and> filter is_execv (new_events s (check_restart b w s)) = []
                 | Some c \<Rightarrow>
                     if c \<le> 0xFFFFFFFF
                     then halted (check_restart b w s)
                           = Some (if execv_ok w then Replaced else Exited 0)
                       \<and> filter is_execv (new_events s (check_restart b w s))
                           = [Execv (HOPM_BINPATH b) (argv w)]
                     else halted (check_restart b w s) = Some Spinning
                       \<and> filter is_execv (new_events s (check_restart b w s)) = [])"
    by (rule check_restart_outcome)
qed

theorem restart_flag_is_final_witness:
  "RESTART example_pending \<noteq> 0
   \<and> RESTART (arrive (Deliver SIGUSR1) example_pending) \<noteq> 0
   \<and> RESTART (main_loop 3 example_build example_world example_pending) \<noteq> 0
   \<and> halted example_pending = None
   \<and> RESTART (point example_world example_pending) \<noteq> 0
   \<and> halted (check_restart example_build example_world example_pending) = Some Replaced
   \<and> set (phases (new_events example_pending
        (block [check_restart example_build example_world, check_reopen example_world,
           check_alarmed example_world, main_loop 3 example_build example_world]
           example_pending))) \<subseteq> {2}
   \<and> filter is_execv
        (new_events example_pending (check_restart example_build example_world example_pending))
       = [Execv ''/usr/local/bin/hopm'' [''hopm'', ''-c'', ''test'']]"
proof -
  have f: "RESTART example_pending \<noteq> 0" "halted example_pending = None"
    by (simp_all add: example_pending_fields)
  have p: "RESTART (point example_world example_pending) \<noteq> 0"
    using point_flags [of example_pending example_world] by (simp add: example_pending_fields)
  have v: "OPT_DEBUG example_pending = 0" "rlimit_nofile example_world = Some 3"
    "execv_ok example_world" "HOPM_BINPATH example_build = ''/usr/local/bin/hopm''"
    "argv example_world = [''hopm'', ''-c'', ''test'']"
    by (simp_all add: example_pending_fields example_world_def example_build_def)
  have r: "halted (check_restart example_build example_world example_pending) = Some Replaced"
    by (simp add: loop_defs cloexec_loop.simps example_pending_def example_proc_value
        example_world_def example_build_def prim_defs)
  then have ni: "\<not> interrupted (check_restart example_build example_world example_pending)"
    by (simp add: interrupted_def)
  note T = restart_flag_is_final
    [where s = example_pending and a = "Deliver SIGUSR1" and w = example_world
      and b = example_build and n = 3]
  note T1 = T [THEN conjunct1, THEN mp, OF f(1)]
  note T2 = T [THEN conjunct2, THEN mp, OF conjI [OF f(2) p]]
  have e: "filter is_execv
        (new_events example_pending (check_restart example_build example_world example_pending))
       = [Execv ''/usr/local/bin/hopm'' [''hopm'', ''-c'', ''test'']]"
    using T2 [THEN conjunct2, THEN conjunct2] ni by (simp add: v)
  from f(1) T1 [THEN conjunct1] T1 [THEN conjunct2, THEN conjunct2, THEN conjunct2] f(2) p r
    T2 [THEN conjunct2, THEN conjunct1] e
  show ?thesis
    by (intro conjI)
qed

text \<open>
  The claim as it is written has three ways through the branch: the debug refusal, the
  image replacement and the exit after a failed replacement. Two runs of a process
  outside debug mode take none of them. When the ceiling query fails, the process ends
  with status 1 and no replacement was attempted. When an interrupt request arrives
  inside the branch, here after the restart has been logged, the handler ends the
  process with status 0 and no replacement was attempted.
\<close>

theorem restart_paths_outside_the_list:
  "OPT_DEBUG example_pending = 0
   \<and> RESTART (point no_ceiling_world example_pending) \<noteq> 0
   \<and> halted (check_restart example_build no_ceiling_world example_pending) = Some (Exited 1)
   \<and> filter is_execv (trace (check_restart example_build no_ceiling_world example_pending)) = []
   \<and> RESTART (point (interrupt_at 3 example_world) example_pending) \<noteq> 0
   \<and> halted (check_restart example_build (interrupt_at 3 example_world) example_pending)
       = Some (Exited 0)
   \<and> filter is_execv
        (trace (check_restart example_build (interrupt_at 3 example_world) example_pending)) = []
   \<and> last (trace (check_restart example_build (interrupt_at 3 example_world) example_pending))
       = LogPrintf ''MAIN -> Caught SIGINT, bye!'' []"
proof -
  have a: "halted (check_restart example_build no_ceiling_world example_pending)
        = Some (Exited 1)
      \<and> filter is_execv (trace (check_restart example_build no_ceiling_world example_pending))
        = []"
    by (simp add: loop_defs example_pending_def example_proc_value no_ceiling_world_def
        example_world_def example_build_def prim_defs)
  have b: "halted (check_restart example_build (interrupt_at 3 example_world) example_pending)
       = Some (Exited 0)
   \<and> filter is_execv
        (trace (check_restart example_build (interrupt_at 3 example_world) example_pending)) = []
   \<and> last (trace (check_restart example_build (interrupt_at 3 example_world) example_pending))
       = LogPrintf ''MAIN -> Caught SIGINT, bye!'' []"
    by (simp add: loop_defs example_pending_def example_proc_value interrupt_at_def
        example_world_def example_build_def prim_defs)
  have c: "RESTART (point no_ceiling_world example_pending) \<noteq> 0"
    "RESTART (point (interrupt_at 3 example_world) example_pending) \<noteq> 0"
    using point_flags [of example_pending no_ceiling_world]
      point_flags [of example_pending "interrupt_at 3 example_world"]
    by (simp_all add: example_pending_fields)
  from a b c example_pending_fields(6) show ?thesis
    by (intro conjI) simp_all
qed

text \<open>
  Claim C7, as the code has it. The restart flag is set when its test is reached and
  the debug level is not zero. Then \<^verbatim>\<open>execv\<close> is not called, whatever arrives, and the
  process ends. Two delivery points lie on the way: the one before the test of the
  flag and the one between that test and the test of the debug level. When the
  schedule holds no interrupt request for either, the process ends by \<^verbatim>\<open>return 1\<close>,
  exit status 1, and nothing has been logged. When it holds one, the handler logs its
  line and ends the process with status 0.
\<close>

theorem debug_restart_refused_unless_interrupted:
  assumes "halted s = None" and "RESTART (point w s) \<noteq> 0" and "OPT_DEBUG s \<noteq> 0"
  shows "filter is_execv (trace (check_restart b w s)) = filter is_execv (trace s)
    \<and> (if Deliver SIGINT \<in> set (sched w (clock s))
          \<or> Deliver SIGINT \<in> set (sched w (Suc (clock s)))
        then halted (check_restart b w s) = Some (Exited 0)
          \<and> filter is_log (trace (check_restart b w s))
              = filter is_log (trace s) @ [LogPrintf ''MAIN -> Caught SIGINT, bye!'' []]
        else halted (check_restart b w s) = Some (Exited 1)
          \<and> filter is_log (trace (check_restart b w s)) = filter is_log (trace s))"
proof (cases "Deliver SIGINT \<in> set (sched w (clock s))")
  case True
  have "halted (point w s) \<noteq> None"
    using point_interrupt(1) [OF assms(1) True] by simp
  with assms(1) have "check_restart b w s = point w s"
    unfolding check_restart_def by (rule stmt_cut)
  with True point_interrupt(1) [OF assms(1) True] point_interrupt_log [OF assms(1) True]
  show ?thesis
    by (simp add: point_filter_execv)
next
  case False
  define s0 where "s0 = point w s"
  have run0: "halted s0 = None"
    using point_calm(1) [OF False] assms(1) by (simp add: s0_def)
  have fr0: "OPT_DEBUG s0 \<noteq> 0" "clock s0 = Suc (clock s)"
    "filter is_log (trace s0) = filter is_log (trace s)"
    "filter is_execv (trace s0) = filter is_execv (trace s)"
    using assms(3) point_calm_filter [OF False, of is_log]
    by (simp_all add: s0_def point_frame point_filter_execv)
  have eq: "check_restart b w s
      = (if halted (point w s0) = None then halt (Exited 1) (point w s0) else point w s0)"
    using check_restart_taken [OF assms(1) run0 [unfolded s0_def], of b] assms(2)
      restart_debug [OF run0 fr0(1), of b]
    by (simp add: s0_def)
  show ?thesis
  proof (cases "Deliver SIGINT \<in> set (sched w (Suc (clock s)))")
    case True
    then have mem: "Deliver SIGINT \<in> set (sched w (clock s0))"
      by (simp add: fr0(2))
    from point_interrupt(1) [OF run0 mem] eq
    have "check_restart b w s = point w s0" by simp
    with True point_interrupt(1) [OF run0 mem] point_interrupt_log [OF run0 mem] fr0
    show ?thesis
      by (simp add: point_filter_execv)
  next
    case none: False
    then have nmem: "Deliver SIGINT \<notin> set (sched w (clock s0))"
      by (simp add: fr0(2))
    from point_calm(1) [OF nmem] run0 eq
    have "check_restart b w s = halt (Exited 1) (point w s0)" by simp
    with False none point_calm_filter [OF nmem, of is_log] fr0
    show ?thesis
      by (simp add: point_filter_execv halt_def)
  qed
qed

theorem debug_restart_refused_unless_interrupted_witness:
  "halted example_debug = None
   \<and> RESTART (point example_debug_world example_debug) \<noteq> 0
   \<and> OPT_DEBUG example_debug \<noteq> 0
   \<and> filter is_execv (trace (check_restart example_build example_debug_world example_debug)) = []
   \<and> halted (check_restart example_build example_debug_world example_debug) = Some (Exited 1)
   \<and> filter is_log (trace (check_restart example_build example_debug_world example_debug))
       = filter is_log (trace example_debug)"
proof -
  have "halted example_debug = None" "OPT_DEBUG example_debug \<noteq> 0"
    "filter is_execv (trace example_debug) = []" "clock example_debug = 0"
    by (simp_all add: example_debug_value)
  moreover have "RESTART (point example_debug_world example_debug) \<noteq> 0"
    using point_flags [of example_debug example_debug_world] by (simp add: example_debug_value)
  moreover have "\<And>n. Deliver SIGINT \<notin> set (sched example_debug_world n)"
    by (simp add: example_debug_world_def example_world_def)
  ultimately show ?thesis
    using debug_restart_refused_unless_interrupted
      [where s = example_debug and w = example_debug_world and b = example_build]
    by simp
qed

text \<open>
  The claim as it is written, with status 1 and nothing logged on every restart
  requested in debug mode, fails when an interrupt request arrives between the test of
  the flag and the test of the debug level: the flag was found set, the handler logs
  its line, and the process ends with status 0.
\<close>

theorem interrupted_debug_restart_exits_0:
  "OPT_DEBUG example_debug \<noteq> 0
   \<and> halted (point (interrupt_at 1 example_debug_world) example_debug) = None
   \<and> RESTART (point (interrupt_at 1 example_debug_world) example_debug) \<noteq> 0
   \<and> halted (check_restart example_build (interrupt_at 1 example_debug_world) example_debug)
       = Some (Exited 0)
   \<and> trace (check_restart example_build (interrupt_at 1 example_debug_world) example_debug)
       = trace example_debug @ [LogPrintf ''MAIN -> Caught SIGINT, bye!'' []]"
  by (simp add: loop_defs example_debug_value interrupt_at_def prim_defs)


text \<open>
  Claim C4, as the code has it. The test of the tick flag is reached and finds the flag
  set. Four delivery points follow: one before each of the three timer calls and one
  before the assignment that clears the flag. When the schedule holds no interrupt
  request for any of them, the messaging timer, the scanning timer and the
  command-queue timer are called, each once and in this order, the process goes on,
  and the flag is cleared by the last statement of the branch: in the state in which
  that assignment runs all three calls are in the trace and the flag is still set.
  When the schedule holds an interrupt request for one of the four, the handler ends
  the process there with status 0: the timers before that point have been called, in
  this order, the later ones have not, and the flag is still set.
\<close>

theorem tick_timers_in_order_unless_interrupted:
  assumes "halted (point w s) = None" and "ALARMED (point w s) \<noteq> 0"
  shows "filter is_timer (trace (check_alarmed w s))
      = filter is_timer (trace s)
        @ (if Deliver SIGINT \<in> set (sched w (clock s + 1)) then []
           else if Deliver SIGINT \<in> set (sched w (clock s + 2)) then [IrcTimer]
           else if Deliver SIGINT \<in> set (sched w (clock s + 3)) then [IrcTimer, ScanTimer]
           else [IrcTimer, ScanTimer, CommandTimer])
    \<and> (if Deliver SIGINT \<in> set (sched w (clock s + 1))
          \<or> Deliver SIGINT \<in> set (sched w (clock s + 2))
          \<or> Deliver SIGINT \<in> set (sched w (clock s + 3))
          \<or> Deliver SIGINT \<in> set (sched w (clock s + 4))
        then halted (check_alarmed w s) = Some (Exited 0) \<and> ALARMED (check_alarmed w s) \<noteq> 0
        else halted (check_alarmed w s) = None \<and> ALARMED (check_alarmed w s) = 0
          \<and> check_alarmed w s
             = (point w (emit CommandTimer (point w (emit ScanTimer (point w (emit IrcTimer
                  (point w (point w s))))))))\<lparr>ALARMED := 0\<rparr>
          \<and> ALARMED (point w (emit CommandTimer (point w (emit ScanTimer (point w
                  (emit IrcTimer (point w (point w s)))))))) \<noteq> 0)"
proof -
  define s0 where "s0 = point w s"
  define s1 where "s1 = emit IrcTimer (point w s0)"
  define s2 where "s2 = emit ScanTimer (point w s1)"
  define s3 where "s3 = emit CommandTimer (point w s2)"
  have run: "halted s = None"
    using assms(1) by (rule point_reached)
  have run0: "halted s0 = None" and flag0: "ALARMED s0 \<noteq> 0"
    using assms by (simp_all add: s0_def)
  have ck: "clock s0 = clock s + 1" "clock s1 = clock s + 2" "clock s2 = clock s + 3"
    "clock s3 = clock s + 4"
    by (simp_all add: s0_def s1_def s2_def s3_def point_frame emit_fields)
  have h: "halted s1 = halted (point w s0)" "halted s2 = halted (point w s1)"
    "halted s3 = halted (point w s2)"
    by (simp_all add: s1_def s2_def s3_def emit_fields)
  have fl: "ALARMED (point w s0) \<noteq> 0" "ALARMED (point w s1) \<noteq> 0"
    "ALARMED (point w s2) \<noteq> 0" "ALARMED (point w s3) \<noteq> 0"
  proof -
    show a: "ALARMED (point w s0) \<noteq> 0"
      using flag0 point_flags [of s0 w] by simp
    then have "ALARMED s1 \<noteq> 0" by (simp add: s1_def emit_fields)
    then show b: "ALARMED (point w s1) \<noteq> 0"
      using point_flags [of s1 w] by simp
    then have "ALARMED s2 \<noteq> 0" by (simp add: s2_def emit_fields)
    then show c: "ALARMED (point w s2) \<noteq> 0"
      using point_flags [of s2 w] by simp
    then have "ALARMED s3 \<noteq> 0" by (simp add: s3_def emit_fields)
    then show "ALARMED (point w s3) \<noteq> 0"
      using point_flags [of s3 w] by simp
  qed
  have tr: "filter is_timer (trace (point w s0)) = filter is_timer (trace s) @ []"
    "filter is_timer (trace (point w s1)) = filter is_timer (trace s) @ [IrcTimer]"
    "filter is_timer (trace (point w s2)) = filter is_timer (trace s) @ [IrcTimer, ScanTimer]"
    "filter is_timer (trace (point w s3))
       = filter is_timer (trace s) @ [IrcTimer, ScanTimer, CommandTimer]"
    by (simp_all add: s0_def s1_def s2_def s3_def emit_fields point_filter_timer)
  have whole: "check_alarmed w s = timers w s0"
    using run assms by (simp add: check_alarmed_def stmt_running s0_def)
  show ?thesis
  proof (cases "Deliver SIGINT \<in> set (sched w (clock s + 1))")
    case True
    then have mem: "Deliver SIGINT \<in> set (sched w (clock s0))" by (simp add: ck)
    note P = point_interrupt(1) [OF run0 mem]
    then have "stmt w (emit IrcTimer) s0 = point w s0"
      using run0 by (intro stmt_cut) simp_all
    then have "timers w s0 = point w s0"
      using P by (simp add: timers_stmts stmt_halted)
    with whole True P fl(1) tr(1) show ?thesis by simp
  next
    case n1: False
    then have nmem: "Deliver SIGINT \<notin> set (sched w (clock s0))" by (simp add: ck)
    have r1: "halted s1 = None"
      using point_calm(1) [OF nmem] run0 h by simp
    have e1: "stmt w (emit IrcTimer) s0 = s1"
      using run0 r1 h(1) by (simp only: stmt_running s1_def) simp
    show ?thesis
    proof (cases "Deliver SIGINT \<in> set (sched w (clock s + 2))")
      case True
      then have mem: "Deliver SIGINT \<in> set (sched w (clock s1))" by (simp add: ck)
      note P = point_interrupt(1) [OF r1 mem]
      then have "stmt w (emit ScanTimer) s1 = point w s1"
        using r1 by (intro stmt_cut) simp_all
      with e1 have "timers w s0 = point w s1"
        using P by (simp add: timers_stmts stmt_halted)
      with whole n1 True P fl(2) tr(2) show ?thesis by simp
    next
      case n2: False
      then have nmem: "Deliver SIGINT \<notin> set (sched w (clock s1))" by (simp add: ck)
      have r2: "halted s2 = None"
        using point_calm(1) [OF nmem] r1 h by simp
      have e2: "stmt w (emit ScanTimer) s1 = s2"
        using r1 r2 h(2) by (simp only: stmt_running s2_def) simp
      show ?thesis
      proof (cases "Deliver SIGINT \<in> set (sched w (clock s + 3))")
        case True
        then have mem: "Deliver SIGINT \<in> set (sched w (clock s2))" by (simp add: ck)
        note P = point_interrupt(1) [OF r2 mem]
        then have "stmt w (emit CommandTimer) s2 = point w s2"
          using r2 by (intro stmt_cut) simp_all
        with e1 e2 have "timers w s0 = point w s2"
          using P by (simp add: timers_stmts stmt_halted)
        with whole n1 n2 True P fl(3) tr(3) show ?thesis by simp
      next
        case n3: False
        then have nmem: "Deliver SIGINT \<notin> set (sched w (clock s2))" by (simp add: ck)
        have r3: "halted s3 = None"
          using point_calm(1) [OF nmem] r2 h by simp
        have e3: "stmt w (emit CommandTimer) s2 = s3"
          using r2 r3 h(3) by (simp only: stmt_running s3_def) simp
        have t: "timers w s0 = stmt w (\<lambda>s. s\<lparr>ALARMED := 0\<rparr>) s3"
          using e1 e2 e3 by (simp only: timers_stmts)
        show ?thesis
        proof (cases "Deliver SIGINT \<in> set (sched w (clock s + 4))")
          case True
          then have mem: "Deliver SIGINT \<in> set (sched w (clock s3))" by (simp add: ck)
          note P = point_interrupt(1) [OF r3 mem]
          then have "stmt w (\<lambda>s. s\<lparr>ALARMED := 0\<rparr>) s3 = point w s3"
            using r3 by (intro stmt_cut) simp_all
          with t have "timers w s0 = point w s3" by simp
          with whole n1 n2 n3 True P fl(4) tr(4) show ?thesis by simp
        next
          case n4: False
          then have nmem: "Deliver SIGINT \<notin> set (sched w (clock s3))" by (simp add: ck)
          have r4: "halted (point w s3) = None"
            using point_calm(1) [OF nmem] r3 by simp
          with t r3 have "timers w s0 = (point w s3)\<lparr>ALARMED := 0\<rparr>"
            by (simp add: stmt_running)
          with whole have fin: "check_alarmed w s = (point w s3)\<lparr>ALARMED := 0\<rparr>"
            by simp
          have c1: "filter is_timer (trace (check_alarmed w s))
              = filter is_timer (trace s) @ [IrcTimer, ScanTimer, CommandTimer]"
            using fin tr(4) by simp
          have c2: "halted (check_alarmed w s) = None" "ALARMED (check_alarmed w s) = 0"
            using fin r4 by simp_all
          note c3 = fin [unfolded s3_def s2_def s1_def s0_def]
          note c4 = fl(4) [unfolded s3_def s2_def s1_def s0_def]
          from n1 n2 n3 n4 c1 c2 c3 c4 show ?thesis
            by (simp only: if_False simp_thms)
        qed
      qed
    qed
  qed
qed

theorem tick_timers_in_order_unless_interrupted_witness:
  "halted (point example_world example_pending) = None
   \<and> ALARMED (point example_world example_pending) \<noteq> 0
   \<and> filter is_timer (trace (check_alarmed example_world example_pending))
       = filter is_timer (trace example_pending) @ [IrcTimer, ScanTimer, CommandTimer]
   \<and> halted (check_alarmed example_world example_pending) = None
   \<and> ALARMED (check_alarmed example_world example_pending) = 0"
proof -
  have h1: "halted (point example_world example_pending) = None"
    by (simp add: point_running [OF example_no_interrupt] example_pending_fields)
  have h2: "ALARMED (point example_world example_pending) \<noteq> 0"
    using point_flags [of example_pending example_world] by (simp add: example_pending_fields)
  have q: "\<And>n. Deliver SIGINT \<notin> set (sched example_world n)"
    by (simp add: example_world_def)
  note T = tick_timers_in_order_unless_interrupted [OF h1 h2]
  from T [THEN conjunct1]
  have c1: "filter is_timer (trace (check_alarmed example_world example_pending))
       = filter is_timer (trace example_pending) @ [IrcTimer, ScanTimer, CommandTimer]"
    by (simp add: q)
  have calm: "\<not> (Deliver SIGINT \<in> set (sched example_world (clock example_pending + 1))
      \<or> Deliver SIGINT \<in> set (sched example_world (clock example_pending + 2))
      \<or> Deliver SIGINT \<in> set (sched example_world (clock example_pending + 3))
      \<or> Deliver SIGINT \<in> set (sched example_world (clock example_pending + 4)))"
    by (simp add: q)
  note E = T [THEN conjunct2, unfolded if_not_P [OF calm]]
  from h1 h2 c1 E [THEN conjunct1] E [THEN conjunct2, THEN conjunct1] show ?thesis
    by (intro conjI)
qed

text \<open>
  The claim as it is written, with the three timers called on every observation of the
  flag, fails when an interrupt request arrives between the first and the second call:
  the flag was found set, the messaging timer alone has been called, and the process
  has ended with status 0 with the flag still set.
\<close>

theorem interrupt_cuts_timers_short:
  "halted (point (interrupt_at 2 example_world) example_pending) = None
   \<and> ALARMED (point (interrupt_at 2 example_world) example_pending) \<noteq> 0
   \<and> filter is_timer (trace (check_alarmed (interrupt_at 2 example_world) example_pending))
       = [IrcTimer]
   \<and> halted (check_alarmed (interrupt_at 2 example_world) example_pending) = Some (Exited 0)
   \<and> ALARMED (check_alarmed (interrupt_at 2 example_world) example_pending) = 1"
  by (simp add: loop_defs example_pending_def example_proc_value interrupt_at_def prim_defs)

subsection \<open>The restart branch at its failures\<close>

text \<open>
  Claim C1, evaluated where it fails. A restart is requested outside debug mode, the
  ceiling is 3 and \<^verbatim>\<open>execv\<close> fails with errno 13: the iteration logs the restart,
  queries the ceiling, marks the descriptors 0, 1 and 2, calls \<^verbatim>\<open>execv\<close>, logs the
  failure and ends the process by \<^verbatim>\<open>exit(0)\<close>, line 287. The exit status is 0, the
  status of the interrupt handler, where the claim has a status that is not zero.
\<close>

theorem failed_execv_exits_with_status_0:
  "halted (main_cycle example_build failing_exec_world example_pending) = Some (Exited 0)
   \<and> filter (\<lambda>e. phase e = 2)
        (trace (main_cycle example_build failing_exec_world example_pending))
       = [LogPrintf ''MAIN -> Restarting process'' [],
          GetrlimitNofile, Fcntl 0, Fcntl 1, Fcntl 2,
          Execv ''/usr/local/bin/hopm'' [''hopm'', ''-c'', ''test''],
          LogPrintf execv_failed_fmt [Str ''/usr/local/bin/hopm'', StrError 13]]"
  by (simp add: loop_defs cloexec_loop.simps example_pending_def example_proc_value
      failing_exec_world_def example_world_def example_build_def prim_defs execv_failed_fmt_def)

text \<open>
  Claim C6, evaluated where it fails. The ceiling query succeeds with
  \<^verbatim>\<open>RLIM_INFINITY\<close>. The counter of the marking loop is an \<^verbatim>\<open>unsigned int\<close>: it is
  always below this ceiling, wraps around to 0 after \<open>2 ^ 32 - 1\<close>, and the loop never
  ends. The descriptor numbers from \<open>2 ^ 32\<close> on, which lie below the ceiling, are
  never passed to \<^verbatim>\<open>fcntl\<close>, and \<^verbatim>\<open>execv\<close> is never reached. For a ceiling of at most
  \<open>2 ^ 32 - 1\<close> the branch does what the claim says: lemma
  \<open>restart_marks_below_ceiling\<close>.
\<close>

theorem marking_never_ends_at_unlimited_ceiling:
  "cloexec_loop unlimited_world 0x7FFFFFFFFFFFFFFF 0 example_pending = None
   \<and> halted (main_cycle example_build unlimited_world example_pending) = Some Spinning
   \<and> filter is_execv (trace (main_cycle example_build unlimited_world example_pending)) = []"
proof -
  define s2 where "s2 = point unlimited_world (emit ScanCycle (point unlimited_world
      (emit IrcCycle (point unlimited_world example_pending))))"
  have ceiling: "rlimit_nofile unlimited_world = Some 0x7FFFFFFFFFFFFFFF"
    by (simp add: unlimited_world_def)
  have large: "(0x100000000 :: 64 word) \<le> 0x7FFFFFFFFFFFFFFF"
    by simp
  have "cloexec_loop unlimited_world 0x7FFFFFFFFFFFFFFF 0 example_pending = None"
    using unlimited_no_interrupt large example_pending_fields(1) by (rule cloexec_loop_diverges)
  moreover have whole: "main_cycle example_build unlimited_world example_pending
      = restart example_build unlimited_world s2"
    unfolding s2_def
    by (rule main_cycle_restart_quiet [OF unlimited_no_interrupt])
      (simp_all add: example_pending_fields)
  have run2: "halted s2 = None"
    by (simp add: s2_def point_running [OF unlimited_no_interrupt] emit_def
        example_pending_fields)
  have dbg2: "OPT_DEBUG s2 = 0"
    by (simp add: s2_def point_frame emit_def example_pending_fields)
  have "filter is_execv (trace s2) = []"
    by (simp add: s2_def point_filter_execv emit_def example_pending_def example_proc_value)
  with restart_spins [OF unlimited_no_interrupt run2 dbg2 ceiling large, of example_build] whole
  have "halted (main_cycle example_build unlimited_world example_pending) = Some Spinning
   \<and> filter is_execv (trace (main_cycle example_build unlimited_world example_pending)) = []"
    by simp
  ultimately show ?thesis by simp
qed

subsection \<open>Start-up\<close>

text \<open>
  Claim C5. In a start-up that reaches the loop, and in any number of iterations
  after it, the calls of \<^verbatim>\<open>unveil\<close> are: first the whole file system with no rights
  (line 108, part of the broad sandbox request), then one grant for each resolved path,
  in this order: the installation root to read, the log file to write and create (only
  when the debug level is 0), the configuration file to read, the scan log to write
  and create (only when one is configured), the pid file to write and create, the
  restart binary to execute. These calls only add to what is visible: apart from the
  first, none has an empty set of rights. The final pledge is made, and every call of
  \<^verbatim>\<open>unveil\<close> lies before it in the trace.
\<close>

theorem path_grants_in_order:
  assumes "halted (startup b w (initial b)) = None"
  shows "filter is_unveil (trace (main n b w))
     = [Unveil ''/'' '''', Unveil (HOPM_PREFIX b) ''r'']
       @ (if OPT_DEBUG (getopt_loop (getopt_returns w) (initial b)) = 0
          then [Unveil (LOGFILE (resolve_paths b (getopt_loop (getopt_returns w) (initial b))))
                  ''wc'']
          else [])
       @ [Unveil (CONFFILE (resolve_paths b (getopt_loop (getopt_returns w) (initial b)))) ''r'']
       @ (case cfg_scanlog w of None \<Rightarrow> [] | Some path \<Rightarrow> [Unveil path ''wc''])
       @ [Unveil (cfg_pidfile w) ''wc'', Unveil (HOPM_BINPATH b) ''x'']
    \<and> Pledge ''stdio inet dns exec'' \<in> set (trace (main n b w))
    \<and> filter is_unveil
        (takeWhile (\<lambda>e. e \<noteq> Pledge ''stdio inet dns exec'') (trace (main n b w)))
       = filter is_unveil (trace (main n b w))"
proof -
  define opts where "opts = getopt_loop (getopt_returns w) (initial b)"
  define pre where "pre =
          [Pledge ''stdio rpath wpath cpath inet dns proc exec unveil'', Unveil ''/'' '''',
           GetrlimitCore]
          @ (if getrlimit_core_ok w then [SetrlimitCore] else [])
          @ [Unveil (HOPM_PREFIX b) ''r'', Chdir (HOPM_PREFIX b)]
          @ (if OPT_DEBUG opts = 0
             then [Fork, Setpgid, Umask 63, Open ''/dev/null'', Dup2 (open_devnull w) 0,
                   Dup2 (open_devnull w) 1, Dup2 (open_devnull w) 2]
                  @ (if open_devnull w > 2 then [Close (open_devnull w)] else [])
                  @ [Unveil (LOGFILE (resolve_paths b opts)) ''wc'',
                     LogOpen (LOGFILE (resolve_paths b opts))]
             else [LogPrintf ''MAIN -> Debug level %d'' [UInt (OPT_DEBUG opts)]])
          @ [LogPrintf ''MAIN -> HOPM %s started.'' [Str (VERSION b)],
             LogPrintf ''MAIN -> Reading configuration file...'' [],
             Unveil (CONFFILE (resolve_paths b opts)) ''r'',
             ConfigLoad (CONFFILE (resolve_paths b opts))]
          @ (case cfg_scanlog w of None \<Rightarrow> []
             | Some path \<Rightarrow> [Unveil path ''wc'', ScanlogOpen path])
          @ [Unveil (cfg_pidfile w) ''wc'', Fopen (cfg_pidfile w) ''w'',
             Unveil (HOPM_BINPATH b) ''x'']"
  define post where "post =
           [Fprintf (decimal (getpid w mod 2 ^ 32) @ [CHR 0x0A]), Fclose,
            Sigaction SIGALRM, Sigaction SIGINT, Sigaction SIGHUP, Sigaction SIGUSR1,
            SignalIgnore SIGPIPE, Alarm 1]"
  have st: "trace (startup b w (initial b)) = pre @ Pledge ''stdio inet dns exec'' # post"
    using startup_complete [OF initial_running(1) assms]
    by (simp only: initial_running(2) append_Nil pre_def post_def opts_def)
  obtain evs where evs:
    "trace (main n b w) = trace (startup b w (initial b)) @ evs"
    "set evs \<subseteq> {e. phase e \<noteq> 0} \<union> handler_events"
    unfolding main_unfold using addsD [OF adds_main_loop] by blast
  have loop: "filter is_unveil evs = []"
    using evs(2) startup_event_phase(1) by (auto simp: filter_empty_conv handler_events_def)
  have whole: "trace (main n b w) = pre @ Pledge ''stdio inet dns exec'' # (post @ evs)"
    using evs(1) st by simp
  have before: "\<forall>e \<in> set pre. e \<noteq> Pledge ''stdio inet dns exec''"
    by (auto simp: pre_def split: option.splits if_splits)
  have grants: "filter is_unveil pre
     = [Unveil ''/'' '''', Unveil (HOPM_PREFIX b) ''r'']
       @ (if OPT_DEBUG opts = 0 then [Unveil (LOGFILE (resolve_paths b opts)) ''wc''] else [])
       @ [Unveil (CONFFILE (resolve_paths b opts)) ''r'']
       @ (case cfg_scanlog w of None \<Rightarrow> [] | Some path \<Rightarrow> [Unveil path ''wc''])
       @ [Unveil (cfg_pidfile w) ''wc'', Unveil (HOPM_BINPATH b) ''x'']"
    by (simp add: pre_def split: option.split)
  have after: "filter is_unveil (post @ evs) = []"
    using loop by (simp add: post_def)
  have cut: "takeWhile (\<lambda>e. e \<noteq> Pledge ''stdio inet dns exec'') (trace (main n b w)) = pre"
    unfolding whole using before by (simp add: takeWhile_append2)
  have all: "filter is_unveil (trace (main n b w)) = filter is_unveil pre"
    unfolding whole using after by simp
  have "Pledge ''stdio inet dns exec'' \<in> set (trace (main n b w))"
    unfolding whole by simp
  with all cut grants show ?thesis
    unfolding opts_def by (simp only: simp_thms)
qed

theorem path_grants_in_order_witness:
  "halted (startup example_build example_world (initial example_build)) = None
   \<and> filter is_unveil (trace (main 2 example_build example_world))
     = [Unveil ''/'' '''', Unveil ''/usr/local'' ''r'', Unveil ''/var/log/test.log'' ''wc'',
        Unveil ''/usr/local/etc/test.conf'' ''r'', Unveil ''/var/log/scan.log'' ''wc'',
        Unveil ''/var/run/hopm.pid'' ''wc'', Unveil ''/usr/local/bin/hopm'' ''x'']
   \<and> Pledge ''stdio inet dns exec'' \<in> set (trace (main 2 example_build example_world))"
proof -
  have h: "halted (startup example_build example_world (initial example_build)) = None"
    using example_proc_value by (simp add: example_proc_def)
  from path_grants_in_order [OF h, of 2] h show ?thesis
    by (simp add: example_world_def example_build_def initial_def resolve_paths_files)
qed

text \<open>
  Claim C2, as the code has it. In a start-up that reaches the loop, and in any
  number of iterations after it, the pledges and the calls on the pid file are, in
  this order: the broad pledge, the opening of the pid file, the final pledge, the
  writing of the process id, the closing of the file. The final narrowing is made
  exactly once; it comes after the pid file is opened and before the process id is
  written into it.
\<close>

theorem final_pledge_between_open_and_write:
  assumes "halted (startup b w (initial b)) = None"
  shows "filter is_pid_or_pledge (trace (main n b w))
     = [Pledge ''stdio rpath wpath cpath inet dns proc exec unveil'',
        Fopen (cfg_pidfile w) ''w'',
        Pledge ''stdio inet dns exec'',
        Fprintf (decimal (getpid w mod 2 ^ 32) @ [CHR 0x0A]),
        Fclose]"
  unfolding main_unfold main_loop_filter_startup
  by (subst startup_complete [OF initial_running(1) assms])
    (simp add: initial_running split: option.split)

theorem final_pledge_between_open_and_write_witness:
  "halted (startup example_build example_world (initial example_build)) = None
   \<and> filter is_pid_or_pledge (trace (main 2 example_build example_world))
     = [Pledge ''stdio rpath wpath cpath inet dns proc exec unveil'',
        Fopen ''/var/run/hopm.pid'' ''w'',
        Pledge ''stdio inet dns exec'',
        Fprintf (''4711'' @ [CHR 0x0A]),
        Fclose]"
proof -
  have h: "halted (startup example_build example_world (initial example_build)) = None"
    using example_proc_value by (simp add: example_proc_def)
  from final_pledge_between_open_and_write [OF h, of 2] h show ?thesis
    by (simp add: example_world_def decimal.simps)
qed

text \<open>
  The claim as it is written, with the narrowing after the writing of the process id
  and none between the opening and the writing, fails on the start-up of the concrete
  installation: when the final pledge is made, the pid file has been opened and
  nothing has been written into it.
\<close>

theorem final_pledge_precedes_pid_write:
  "filter is_pid_or_pledge (trace example_proc)
     = [Pledge ''stdio rpath wpath cpath inet dns proc exec unveil'',
        Fopen ''/var/run/hopm.pid'' ''w'',
        Pledge ''stdio inet dns exec'',
        Fprintf (''4711'' @ [CHR 0x0A]),
        Fclose]
   \<and> takeWhile (\<lambda>e. e \<noteq> Pledge ''stdio inet dns exec'')
        (filter is_pid_or_pledge (trace example_proc))
     = [Pledge ''stdio rpath wpath cpath inet dns proc exec unveil'',
        Fopen ''/var/run/hopm.pid'' ''w'']"
  by (simp add: example_proc_value)

text \<open>
  Claim C8, as the code has it. Line 218 is reached and the pid file is opened with
  mode \<^verbatim>\<open>w\<close> (create or truncate). The result of \<^verbatim>\<open>fopen\<close> is tested at line 228 only:
  the grant of the restart binary and the final pledge come first, and when one of
  them fails, \<^verbatim>\<open>err\<close> reports that failure and ends the process with status 1, with the
  file opened and nothing written into it. When both succeed and \<^verbatim>\<open>fopen\<close> succeeded,
  the start-up reaches the loop and the calls on the pid file are \<^verbatim>\<open>fopen\<close>, one
  \<^verbatim>\<open>fprintf\<close> of the decimal digits of \<^verbatim>\<open>(unsigned int)getpid()\<close> and a newline, which
  is the process id itself as process ids are below \<open>2 ^ 32\<close>, and \<^verbatim>\<open>fclose\<close>. When
  both succeed and \<^verbatim>\<open>fopen\<close> failed, the last thing the process does is to log the path
  and \<^verbatim>\<open>strerror\<close> of the \<^verbatim>\<open>errno\<close> of the failed \<^verbatim>\<open>fopen\<close>, and it ends with status 1.
  In every failure the loop is never entered: no progress call is made.
\<close>

theorem pid_file_outcomes:
  assumes "halted (startup_paths b w (initial b)) = None"
  shows "if unveil_ok w (HOPM_BINPATH b) ''x'' \<and> pledge_ok w ''stdio inet dns exec''
            \<and> fopen_ok w
     then halted (startup b w (initial b)) = None
       \<and> filter is_pid_file (trace (main n b w))
           = [Fopen (cfg_pidfile w) ''w'',
              Fprintf (decimal (getpid w mod 2 ^ 32) @ [CHR 0x0A]),
              Fclose]
       \<and> (getpid w < 2 ^ 32 \<longrightarrow>
            Fprintf (decimal (getpid w) @ [CHR 0x0A]) \<in> set (trace (main n b w)))
     else halted (main n b w) = Some (Exited 1)
       \<and> main n b w = startup b w (initial b)
       \<and> filter (\<lambda>e. phase e = 1) (trace (main n b w)) = []
       \<and> filter is_pid_file (trace (main n b w)) = [Fopen (cfg_pidfile w) ''w'']
       \<and> last (trace (main n b w))
           = (if \<not> unveil_ok w (HOPM_BINPATH b) ''x''
              then Err ''unveil'' (failure_errno w ''unveil'')
              else if \<not> pledge_ok w ''stdio inet dns exec''
              then Err ''pledge'' (failure_errno w ''pledge'')
              else LogPrintf ''MAIN -> Error opening pid file %s: %s''
                     [Str (cfg_pidfile w), StrError (failure_errno w ''fopen'')])"
proof -
  define s' where "s' = startup_paths b w (initial b)"
  have p': "halted s' = None"
    using assms by (simp add: s'_def)
  note A = startup_paths_complete [OF initial_running(1) assms]
  have pf: "pidfile s' = cfg_pidfile w"
    unfolding s'_def by (subst A) simp
  have tr': "filter is_pid_file (trace s') = []" "filter (\<lambda>e. phase e = 1) (trace s') = []"
    unfolding s'_def
    by (subst A, simp add: initial_running execv_failed_fmt_def split: option.split)+
  have eq: "startup b w (initial b) = startup_pidfile b w s'"
    using assms by (simp add: startup_unfold initial_running s'_def)
  note O = startup_pidfile_outcome [OF p', of b w]
  show ?thesis
  proof (cases "unveil_ok w (HOPM_BINPATH b) ''x'' \<and> pledge_ok w ''stdio inet dns exec''
            \<and> fopen_ok w")
    case True
    have fin: "halted (startup b w (initial b)) = None"
      using O(1) True eq by simp
    have files: "filter is_pid_file (trace (main n b w))
          = [Fopen (cfg_pidfile w) ''w'',
             Fprintf (decimal (getpid w mod 2 ^ 32) @ [CHR 0x0A]),
             Fclose]"
      unfolding main_unfold main_loop_filter_startup eq
      using O(2) True tr'(1) pf by simp
    have "Fprintf (decimal (getpid w) @ [CHR 0x0A]) \<in> set (trace (main n b w))"
      if "getpid w < 2 ^ 32"
    proof -
      have "Fprintf (decimal (getpid w) @ [CHR 0x0A])
          \<in> set (filter is_pid_file (trace (main n b w)))"
        unfolding files using that by simp
      then show ?thesis by simp
    qed
    with True fin files show ?thesis by simp
  next
    case False
    have ended: "halted (startup b w (initial b)) = Some (Exited 1)"
      using O(1) False eq by auto
    then have same: "main n b w = startup b w (initial b)"
      unfolding main_unfold by (intro main_loop_halted) simp
    have c1: "filter is_pid_file (trace (main n b w)) = [Fopen (cfg_pidfile w) ''w'']"
      unfolding same eq using O(2) False tr'(1) pf by auto
    have c2: "filter (\<lambda>e. phase e = 1) (trace (main n b w)) = []"
      unfolding same eq using O(2) False tr'(2) by (auto simp: execv_failed_fmt_def)
    have c3: "last (trace (main n b w))
           = (if \<not> unveil_ok w (HOPM_BINPATH b) ''x''
              then Err ''unveil'' (failure_errno w ''unveil'')
              else if \<not> pledge_ok w ''stdio inet dns exec''
              then Err ''pledge'' (failure_errno w ''pledge'')
              else LogPrintf ''MAIN -> Error opening pid file %s: %s''
                     [Str (cfg_pidfile w), StrError (failure_errno w ''fopen'')])"
      unfolding same eq using O(2) False pf by auto
    from False ended same c1 c2 c3 show ?thesis by (simp only: if_False)
  qed
qed

theorem pid_file_outcomes_witness:
  "halted (startup_paths example_build example_world (initial example_build)) = None
   \<and> halted (startup example_build example_world (initial example_build)) = None
   \<and> filter is_pid_file (trace (main 2 example_build example_world))
       = [Fopen ''/var/run/hopm.pid'' ''w'', Fprintf (''4711'' @ [CHR 0x0A]), Fclose]
   \<and> halted (startup_paths example_build unwritable_world (initial example_build)) = None
   \<and> \<not> fopen_ok unwritable_world
   \<and> halted (main 2 example_build unwritable_world) = Some (Exited 1)
   \<and> main 2 example_build unwritable_world
       = startup example_build unwritable_world (initial example_build)
   \<and> filter is_pid_file (trace (main 2 example_build unwritable_world))
       = [Fopen ''/var/run/hopm.pid'' ''w'']
   \<and> last (trace (main 2 example_build unwritable_world))
       = LogPrintf ''MAIN -> Error opening pid file %s: %s''
           [Str ''/var/run/hopm.pid'', StrError 13]"
proof -
  have h1: "halted (startup_paths example_build example_world (initial example_build)) = None"
    by (simp add: example_build_def example_world_def startup_defs prim_defs)
  have h2: "halted (startup_paths example_build unwritable_world (initial example_build)) = None"
    by (simp add: unwritable_world_def example_build_def example_world_def startup_defs
        prim_defs)
  have ok: "unveil_ok example_world (HOPM_BINPATH example_build) ''x''
      \<and> pledge_ok example_world ''stdio inet dns exec'' \<and> fopen_ok example_world"
    by (simp add: example_world_def)
  have v: "cfg_pidfile example_world = ''/var/run/hopm.pid''" "getpid example_world = 4711"
    "cfg_pidfile unwritable_world = ''/var/run/hopm.pid''"
    "failure_errno unwritable_world ''fopen'' = 13"
    by (simp_all add: unwritable_world_def example_world_def)
  have d: "decimal (4711 mod 2 ^ 32) = ''4711''"
    by (simp add: decimal.simps)
  have h3: "\<not> fopen_ok unwritable_world"
    "unveil_ok unwritable_world (HOPM_BINPATH example_build) ''x''"
    "pledge_ok unwritable_world ''stdio inet dns exec''"
    by (simp_all add: unwritable_world_def example_world_def)
  note A = pid_file_outcomes [OF h1, of 2, unfolded if_P [OF ok] v d]
  have no: "\<not> (unveil_ok unwritable_world (HOPM_BINPATH example_build) ''x''
      \<and> pledge_ok unwritable_world ''stdio inet dns exec'' \<and> fopen_ok unwritable_world)"
    using h3(1) by simp
  note B = pid_file_outcomes [OF h2, of 2, unfolded if_not_P [OF no] v]
  have b5: "last (trace (main 2 example_build unwritable_world))
       = LogPrintf ''MAIN -> Error opening pid file %s: %s''
           [Str ''/var/run/hopm.pid'', StrError 13]"
    using B [THEN conjunct2, THEN conjunct2, THEN conjunct2, THEN conjunct2] h3(2,3)
    by simp
  from h1 A [THEN conjunct1] A [THEN conjunct2, THEN conjunct1] h2 h3(1)
    B [THEN conjunct1] B [THEN conjunct2, THEN conjunct1]
    B [THEN conjunct2, THEN conjunct2, THEN conjunct2, THEN conjunct1] b5
  show ?thesis
    by (intro conjI)
qed

text \<open>
  The claim as it is written, with the error of the failed \<^verbatim>\<open>fopen\<close> reported whenever
  the pid file cannot be opened, fails when the final pledge is refused as well: the
  process ends with status 1 on the report of the pledge, and the failed \<^verbatim>\<open>fopen\<close> is
  never logged.
\<close>

theorem failed_open_not_reported:
  "halted (startup_paths example_build locked_world (initial example_build)) = None
   \<and> \<not> fopen_ok locked_world
   \<and> halted (main 2 example_build locked_world) = Some (Exited 1)
   \<and> last (trace (main 2 example_build locked_world)) = Err ''pledge'' 13
   \<and> filter is_log (trace (main 2 example_build locked_world))
       = [LogPrintf ''MAIN -> HOPM %s started.'' [Str ''1.1.10''],
          LogPrintf ''MAIN -> Reading configuration file...'' []]"
proof -
  have h: "halted (startup_paths example_build locked_world (initial example_build)) = None"
    "\<not> fopen_ok locked_world"
    by (simp_all add: locked_world_def unwritable_world_def example_build_def example_world_def
        startup_defs prim_defs)
  have s: "halted (startup example_build locked_world (initial example_build)) = Some (Exited 1)
    \<and> last (trace (startup example_build locked_world (initial example_build))) = Err ''pledge'' 13
    \<and> filter is_log (trace (startup example_build locked_world (initial example_build)))
       = [LogPrintf ''MAIN -> HOPM %s started.'' [Str ''1.1.10''],
          LogPrintf ''MAIN -> Reading configuration file...'' []]"
    by (simp add: locked_world_def unwritable_world_def example_build_def example_world_def
        startup_defs prim_defs)
  then have "main 2 example_build locked_world
      = startup example_build locked_world (initial example_build)"
    unfolding main_unfold by (intro main_loop_halted) simp
  with h s show ?thesis by simp
qed

end
